theory Spec2Isabelle
  imports Complex_Main "HOL-Library.Word" "HOL-Library.Sublist" "HOL-Library.AList"
    "HOL-Library.Code_Target_Numeral"
begin

unbundle bit_operations_syntax

section \<open>Python errors\<close>

text \<open>
  The exceptions the modelled code can raise.  A raising call is a value \<open>Inl e\<close> of the
  result type \<open>py_error + 'a\<close>.
\<close>

datatype py_error =
    KeyError string
  | AttributeError string
  | TypeError
  | ValueError
  | OverflowError
  | NameError string

section \<open>The record loader of \<^verbatim>\<open>schedule_v2\<close>\<close>

text \<open>
  The module \<^verbatim>\<open>schedule_v2.py\<close> is exercised by
  \<^verbatim>\<open>23-dyn-attr-prop/oscon/test_schedule_v2.py\<close>, which imports it, but the module
  itself is not among the source files.  Its operations are therefore modelled from the
  specification (sections 3 and 4.1); the concrete display strings are the ones the test
  file asserts.
\<close>

subsection \<open>Values, keys and records\<close>

text \<open>Scalar JSON values, the field values of a record.\<close>

datatype jvalue = JStr string | JInt int | JBool bool | JNull

text \<open>
  A JSON object is kept as an association list, in document order; \<open>map_of\<close> reads it as
  the field mapping.
\<close>

type_synonym fields = "(string \<times> jvalue) list"

datatype variant = Generic | Event

text \<open>
  A constructed record instance: its identity (the allocation number of the object), its
  variant and its field mapping.  Two references denote the identical instance exactly
  when the identities agree.
\<close>

record record_obj =
  obj_id :: nat
  kind_of :: variant
  attrs :: fields

text \<open>
  The process-wide state of the loader: the preloaded dataset (composite key to raw
  fields, in document order), the cache of constructed records and the number of records
  constructed so far.
\<close>

record loader =
  dataset :: "(string \<times> fields) list"
  cache :: "(string \<times> record_obj) list"
  constructed :: nat

definition start :: "(string \<times> fields) list \<Rightarrow> loader" where
  "start d = \<lparr>dataset = d, cache = [], constructed = 0\<rparr>"

subsection \<open>Fetching\<close>

text \<open>
  Modelled from the spec: the category portion of a composite key
  \<^verbatim>\<open><category>.<serial>\<close> (section 3); \<^verbatim>\<open>schedule_v2.py\<close> is not among the sources.
\<close>

definition category :: "string \<Rightarrow> string" where
  "category key = takeWhile (\<lambda>c. c \<noteq> CHR ''.'') key"

text \<open>
  Modelled from the spec: variant selection of \<^verbatim>\<open>Record.fetch\<close> (section 4.1),
  ``default generic record; "event" category yields a specialized variant''.
\<close>

definition variant_of :: "string \<Rightarrow> variant" where
  "variant_of key = (if category key = ''event'' then Event else Generic)"

definition construct :: "string \<Rightarrow> fields \<Rightarrow> nat \<Rightarrow> record_obj" where
  "construct key raw n = \<lparr>obj_id = n, kind_of = variant_of key, attrs = raw\<rparr>"

text \<open>
  Modelled from the spec: \<^verbatim>\<open>Record.fetch(key)\<close> of the missing \<^verbatim>\<open>schedule_v2.py\<close>
  (section 4.1): ``returns the cached record if previously constructed; otherwise
  constructs it from a process-wide preloaded dataset, selecting the concrete record
  variant by the category portion of the key, caches it, and returns it.  Fails with a
  lookup error if the key is absent from the dataset.''
\<close>

definition fetch :: "string \<Rightarrow> loader \<Rightarrow> (py_error + record_obj) \<times> loader" where
  "fetch key s =
     (case map_of (cache s) key of
        Some r \<Rightarrow> (Inr r, s)
      | None \<Rightarrow>
          (case map_of (dataset s) key of
             None \<Rightarrow> (Inl (KeyError key), s)
           | Some raw \<Rightarrow>
               (let r = construct key raw (constructed s)
                in (Inr r, s\<lparr>cache := (key, r) # cache s,
                              constructed := Suc (constructed s)\<rparr>))))"

text \<open>The state after a sequence of \<open>fetch\<close> calls, whatever they returned.\<close>

fun fetch_all :: "string list \<Rightarrow> loader \<Rightarrow> loader" where
  "fetch_all [] s = s"
| "fetch_all (k # ks) s = fetch_all ks (snd (fetch k s))"

subsection \<open>Attribute access and display\<close>

text \<open>
  Modelled from the spec: attribute access on a record (section 4.1), ``returns the
  corresponding value from its underlying field mapping; fails with an attribute error
  if the field is absent''; \<^verbatim>\<open>schedule_v2.py\<close> is not among the sources.
\<close>

definition get_attr :: "record_obj \<Rightarrow> string \<Rightarrow> py_error + jvalue" where
  "get_attr r name =
     (case map_of (attrs r) name of
        None \<Rightarrow> Inl (AttributeError name)
      | Some v \<Rightarrow> Inr v)"

text \<open>Decimal digits of a natural number, and Python's \<^verbatim>\<open>repr\<close> of an integer.\<close>

fun digits :: "nat \<Rightarrow> string" where
  "digits n = (if n < 10 then [char_of (48 + n)]
               else digits (n div 10) @ [char_of (48 + n mod 10)])"

declare digits.simps [simp del]

definition show_int :: "int \<Rightarrow> string" where
  "show_int i = (if i < 0 then CHR ''-'' # digits (nat (- i)) else digits (nat i))"

text \<open>
  Python's \<^verbatim>\<open>repr\<close> of an ASCII string: double quotes when the string holds an
  apostrophe and no double quote, apostrophes otherwise; the backslash, the chosen quote
  and control characters are escaped.
\<close>

definition quote_of :: "string \<Rightarrow> char" where
  "quote_of s = (if CHR 0x27 \<in> set s \<and> CHR 0x22 \<notin> set s then CHR 0x22 else CHR 0x27)"

definition hex_digit :: "nat \<Rightarrow> char" where
  "hex_digit n = (if n < 10 then char_of (48 + n) else char_of (87 + n))"

definition escape :: "char \<Rightarrow> char \<Rightarrow> string" where
  "escape q c =
     (if c = CHR 0x5C then [CHR 0x5C, CHR 0x5C]
      else if c = q then [CHR 0x5C, q]
      else if c = CHR 0x0A then [CHR 0x5C, CHR ''n'']
      else if c = CHR 0x0D then [CHR 0x5C, CHR ''r'']
      else if c = CHR 0x09 then [CHR 0x5C, CHR ''t'']
      else if of_char c < (32::nat) \<or> of_char c = (127::nat)
        then [CHR 0x5C, CHR ''x'', hex_digit (of_char c div 16), hex_digit (of_char c mod 16)]
      else [c])"

definition repr_str :: "string \<Rightarrow> string" where
  "repr_str s = (let q = quote_of s in q # concat (map (escape q) s) @ [q])"

fun py_repr :: "jvalue \<Rightarrow> string" where
  "py_repr (JStr s) = repr_str s"
| "py_repr (JInt i) = show_int i"
| "py_repr (JBool b) = (if b then ''True'' else ''False'')"
| "py_repr JNull = ''None''"

text \<open>
  Modelled from the spec: the display form of a record (section 4.1), ``generic records
  show a default representation; the "event" variant shows its title field if present,
  otherwise falls back to showing its serial number''; \<^verbatim>\<open>schedule_v2.py\<close> is not among
  the sources.  The two event forms are the strings \<^verbatim>\<open>test_event_repr\<close> asserts.  The
  specification names neither the default representation nor the title field, so both
  are parameters: \<open>dflt\<close> renders a generic record, \<open>title\<close> is the name of the title
  field.
\<close>

definition display :: "(record_obj \<Rightarrow> string) \<Rightarrow> string \<Rightarrow> record_obj \<Rightarrow> py_error + string" where
  "display dflt title r =
     (case kind_of r of
        Generic \<Rightarrow> Inr (dflt r)
      | Event \<Rightarrow>
          (case map_of (attrs r) title of
             Some t \<Rightarrow> Inr (''<Event '' @ py_repr t @ ''>'')
           | None \<Rightarrow>
               (case get_attr r ''serial'' of
                  Inl e \<Rightarrow> Inl e
                | Inr n \<Rightarrow> Inr (''<Event serial='' @ py_repr n @ ''>''))))"

text \<open>A display result embeds a text when it is a string that contains the text.\<close>

definition embeds :: "py_error + string \<Rightarrow> string \<Rightarrow> bool" where
  "embeds res w = (case res of Inl e \<Rightarrow> False | Inr s \<Rightarrow> sublist w s)"

text \<open>
  The sample used by the witnesses: two records of the schedule the tests read, with the
  fields the tests look at.
\<close>

definition sample :: "(string \<times> fields) list" where
  "sample =
     [(''venue.1449'', [(''serial'', JInt 1449), (''name'', JStr ''Portland 251'')]),
      (''event.33950'', [(''serial'', JInt 33950), (''name'', JStr ''There *Will* Be Bugs''),
                         (''venue_serial'', JInt 1449)])]"

section \<open>The vector class of \<^verbatim>\<open>classes/vector2d_v3.py\<close>\<close>

subsection \<open>Python floats\<close>

text \<open>
  A Python float is an IEEE-754 binary64 value.  It is modelled by its bit pattern: bit 63
  is the sign, bits 62 to 52 the biased exponent, bits 51 to 0 the fraction.
\<close>

type_synonym double = "64 word"

definition sign_of :: "double \<Rightarrow> bool" where
  "sign_of w = (2 ^ 63 \<le> unat w)"

definition expo :: "double \<Rightarrow> nat" where
  "expo w = (unat w div 2 ^ 52) mod 2 ^ 11"

definition fract :: "double \<Rightarrow> nat" where
  "fract w = unat w mod 2 ^ 52"

definition is_nan :: "double \<Rightarrow> bool" where
  "is_nan w = (expo w = 2047 \<and> fract w \<noteq> 0)"

definition is_inf :: "double \<Rightarrow> bool" where
  "is_inf w = (expo w = 2047 \<and> fract w = 0)"

definition is_finite :: "double \<Rightarrow> bool" where
  "is_finite w = (expo w < 2047)"

definition is_zero :: "double \<Rightarrow> bool" where
  "is_zero w = (expo w = 0 \<and> fract w = 0)"

text \<open>
  A finite double is \<open>\<plusminus> mant * 2 ^ exp2\<close>: the significand as an integer, with the
  hidden bit unless the number is subnormal, and the exponent that goes with it.
\<close>

definition mant :: "double \<Rightarrow> nat" where
  "mant w = (if expo w = 0 then fract w else 2 ^ 52 + fract w)"

definition exp2 :: "double \<Rightarrow> int" where
  "exp2 w = int (max (expo w) 1) - 1075"

text \<open>
  The value of a finite double, as a real number.  It is used to state properties only;
  no operation computes with it.
\<close>

definition valof :: "double \<Rightarrow> real" where
  "valof w = (if sign_of w then - 1 else 1) * real (mant w) * 2 powi exp2 w"

text \<open>
  \<^verbatim>\<open>a == b\<close> on two floats: a NaN equals nothing, the two zeros are equal, any other
  two floats are equal when their bits are.
\<close>

definition float_eq :: "double \<Rightarrow> double \<Rightarrow> bool" where
  "float_eq a b = (\<not> is_nan a \<and> \<not> is_nan b \<and> (a = b \<or> (is_zero a \<and> is_zero b)))"

text \<open>
  \<^verbatim>\<open>a == n\<close> for a float and an integer: Python compares the exact values.
\<close>

definition float_eq_int :: "double \<Rightarrow> int \<Rightarrow> bool" where
  "float_eq_int a n =
     (is_finite a \<and>
      (let m = (if sign_of a then - int (mant a) else int (mant a))
       in if 0 \<le> exp2 a then m * 2 ^ nat (exp2 a) = n else m = n * 2 ^ nat (- exp2 a)))"

text \<open>The magnitude of a double (the sign bit cleared) and its negation.\<close>

definition float_abs :: "double \<Rightarrow> double" where
  "float_abs w = of_nat (unat w mod 2 ^ 63)"

definition float_neg :: "double \<Rightarrow> double" where
  "float_neg w = of_nat ((unat w + 2 ^ 63) mod 2 ^ 64)"

text \<open>The number of binary digits of a natural number.\<close>

fun bit_length :: "nat \<Rightarrow> nat" where
  "bit_length n = (if n = 0 then 0 else Suc (bit_length (n div 2)))"

declare bit_length.simps [simp del]

text \<open>
  Rounding of a positive number to the nearest double, ties to even.  The number is
  \<open>m * 2 ^ e\<close>, or more by less than \<open>2 ^ e\<close> when \<open>sticky\<close> is set (\<open>m\<close> then has
  54 binary digits or more, so that the part cut off decides).  \<open>qe\<close> is the exponent of
  the last place of the result, \<open>q'\<close> its significand and \<open>b\<close> its bits.  A result too
  large for a double is infinity.
\<close>

definition round_pos :: "nat \<Rightarrow> int \<Rightarrow> bool \<Rightarrow> double" where
  "round_pos m e sticky =
     (let qe = max (int (bit_length m) - 1 + e - 52) (- 1074);
          k = nat (qe - e);
          q = m div 2 ^ k;
          r = m mod 2 ^ k;
          q' = (if qe \<le> e then m * 2 ^ nat (e - qe)
                else if 2 * r > 2 ^ k \<or> (2 * r = 2 ^ k \<and> (sticky \<or> odd q)) then Suc q
                else q);
          b = nat (qe + 1074) * 2 ^ 52 + q'
      in if m = 0 then 0
         else if 2047 * 2 ^ 52 \<le> b then 0x7FF0000000000000
         else of_nat b)"

text \<open>
  \<^verbatim>\<open>float(i)\<close> for an integer: the nearest double, ties to even; OverflowError when
  the integer is too large.
\<close>

definition float_of_int :: "int \<Rightarrow> py_error + double" where
  "float_of_int i =
     (let w = round_pos (nat \<bar>i\<bar>) 0 False
      in if is_inf w then Inl OverflowError
         else Inr (if i < 0 then float_neg w else w))"

subsection \<open>Objects\<close>

text \<open>
  A float object is a value together with the identity of the object that holds it.  Two
  references are the same object (\<^verbatim>\<open>a is b\<close>) when identity and value agree; a fresh
  object takes its identity from an allocation counter.  Identity matters for NaN only:
  comparison of sequence items tries \<^verbatim>\<open>is\<close> before \<^verbatim>\<open>==\<close>, and the hash of a NaN
  is taken from the object, not from the value.
\<close>

record pyfloat =
  ident :: nat
  bits :: double

text \<open>The numbers a vector is built from or compared with: float objects and integers.\<close>

datatype pyval = PyFloat pyfloat | PyInt int

text \<open>
  \<^verbatim>\<open>float(x)\<close>: a float is returned as it is (the same object); an integer gives a new
  float object.  The counter is the next free identity.
\<close>

fun py_float :: "pyval \<Rightarrow> nat \<Rightarrow> (py_error + pyfloat) \<times> nat" where
  "py_float (PyFloat f) n = (Inr f, n)"
| "py_float (PyInt i) n =
     (case float_of_int i of
        Inl e \<Rightarrow> (Inl e, n)
      | Inr w \<Rightarrow> (Inr \<lparr>ident = n, bits = w\<rparr>, Suc n))"

text \<open>
  Comparison of two items of a sequence, as tuple comparison does it: identical objects
  are equal, other objects are compared with \<^verbatim>\<open>==\<close>.
\<close>

fun py_eq :: "pyval \<Rightarrow> pyval \<Rightarrow> bool" where
  "py_eq (PyFloat a) (PyFloat b) = (a = b \<or> float_eq (bits a) (bits b))"
| "py_eq (PyFloat a) (PyInt j) = float_eq_int (bits a) j"
| "py_eq (PyInt i) (PyFloat b) = float_eq_int (bits b) i"
| "py_eq (PyInt i) (PyInt j) = (i = j)"

text \<open>\<^verbatim>\<open>t == u\<close> on tuples: the same length and equal items.\<close>

fun tuple_eq :: "pyval list \<Rightarrow> pyval list \<Rightarrow> bool" where
  "tuple_eq [] [] = True"
| "tuple_eq (a # as) (b # bs) = (py_eq a b \<and> tuple_eq as bs)"
| "tuple_eq _ _ = False"

subsection \<open>The class\<close>

text \<open>
  An instance as \<^verbatim>\<open>__init__\<close> leaves it: the two private attributes \<^verbatim>\<open>__x\<close> and
  \<^verbatim>\<open>__y\<close>, each a float object.
\<close>

record Vector2d =
  private_x :: pyfloat
  private_y :: pyfloat

text \<open>
  \<^verbatim>\<open>__init__\<close>: both arguments go through \<^verbatim>\<open>float\<close>, \<^verbatim>\<open>x\<close> first; an argument
  that cannot be converted raises and no instance is made.
\<close>

definition Vector2d_init :: "pyval \<Rightarrow> pyval \<Rightarrow> nat \<Rightarrow> (py_error + Vector2d) \<times> nat" where
  "Vector2d_init a b n =
     (case py_float a n of
        (Inl e, n1) \<Rightarrow> (Inl e, n1)
      | (Inr fx, n1) \<Rightarrow>
          (case py_float b n1 of
             (Inl e, n2) \<Rightarrow> (Inl e, n2)
           | (Inr fy, n2) \<Rightarrow> (Inr \<lparr>private_x = fx, private_y = fy\<rparr>, n2)))"

text \<open>The properties \<^verbatim>\<open>x\<close> and \<^verbatim>\<open>y\<close> (getters only) and \<^verbatim>\<open>__iter__\<close>.\<close>

definition x_prop :: "Vector2d \<Rightarrow> pyfloat" where
  "x_prop self = private_x self"

definition y_prop :: "Vector2d \<Rightarrow> pyfloat" where
  "y_prop self = private_y self"

definition Vector2d_iter :: "Vector2d \<Rightarrow> pyval list" where
  "Vector2d_iter self = [PyFloat (x_prop self), PyFloat (y_prop self)]"

text \<open>
  The objects \<^verbatim>\<open>__eq__\<close> may be given as \<^verbatim>\<open>other\<close>: a vector, a tuple or a list of
  numbers, or something that cannot be iterated (a single number, \<^verbatim>\<open>None\<close>).
\<close>

datatype pyobj =
    PyVec Vector2d
  | PyTuple "pyval list"
  | PyList "pyval list"
  | PyNum pyval
  | PyNone

text \<open>\<^verbatim>\<open>tuple(other)\<close>: the items of an iterable; TypeError for anything else.\<close>

fun py_tuple :: "pyobj \<Rightarrow> py_error + pyval list" where
  "py_tuple (PyVec v) = Inr (Vector2d_iter v)"
| "py_tuple (PyTuple xs) = Inr xs"
| "py_tuple (PyList xs) = Inr xs"
| "py_tuple (PyNum _) = Inl TypeError"
| "py_tuple PyNone = Inl TypeError"

text \<open>\<^verbatim>\<open>__eq__\<close>: \<^verbatim>\<open>tuple(self) == tuple(other)\<close>.\<close>

definition Vector2d_eq :: "Vector2d \<Rightarrow> pyobj \<Rightarrow> py_error + bool" where
  "Vector2d_eq self other =
     (case py_tuple other of
        Inl e \<Rightarrow> Inl e
      | Inr ys \<Rightarrow> Inr (tuple_eq (Vector2d_iter self) ys))"

subsection \<open>Hashing\<close>

text \<open>
  The built-in \<^verbatim>\<open>hash\<close> never returns \<open>-1\<close>: a result of \<open>-1\<close> is replaced by
  \<open>-2\<close>.
\<close>

definition hash_result :: "int \<Rightarrow> int" where
  "hash_result h = (if h = - 1 then - 2 else h)"

text \<open>
  \<^verbatim>\<open>hash\<close> of a float on a 64-bit build, as documented for numeric types: the value
  \<open>m * 2 ^ e\<close> is reduced modulo the prime \<open>2 ^ 61 - 1\<close>, where \<open>2 ^ 61\<close> is \<open>1\<close>,
  and takes the sign of the float; the infinities hash to \<open>\<plusminus>314159\<close>.  The hash of
  a NaN is taken from the object (from its address since Python 3.10, the constant 0
  before), so it is a parameter \<open>nan_hash\<close> on identities.
\<close>

definition hash_modulus :: int where
  "hash_modulus = 2 ^ 61 - 1"

definition hash_float :: "(nat \<Rightarrow> int) \<Rightarrow> pyfloat \<Rightarrow> int" where
  "hash_float nan_hash f =
     (let w = bits f
      in if is_nan w then hash_result (nan_hash (ident f))
         else if is_inf w then (if sign_of w then - 314159 else 314159)
         else
           (let h = (int (mant w) * 2 ^ nat (exp2 w mod 61)) mod hash_modulus
            in hash_result (if sign_of w then - h else h)))"

text \<open>\<^verbatim>\<open>__hash__\<close>: \<^verbatim>\<open>hash(self.x) ^ hash(self.y)\<close>.\<close>

definition Vector2d_hash :: "(nat \<Rightarrow> int) \<Rightarrow> Vector2d \<Rightarrow> int" where
  "Vector2d_hash nan_hash self =
     hash_float nan_hash (x_prop self) XOR hash_float nan_hash (y_prop self)"

text \<open>\<^verbatim>\<open>hash(v)\<close> for a vector: the built-in applied to the result of \<^verbatim>\<open>__hash__\<close>.\<close>

definition py_hash :: "(nat \<Rightarrow> int) \<Rightarrow> Vector2d \<Rightarrow> int" where
  "py_hash nan_hash v = hash_result (Vector2d_hash nan_hash v)"

subsection \<open>Bytes\<close>

text \<open>
  The byte order of the process: \<^verbatim>\<open>array\<close> and \<^verbatim>\<open>memoryview.cast\<close> use the native
  one.
\<close>

datatype byteorder = Little | Big

fun le_bytes :: "nat \<Rightarrow> nat \<Rightarrow> 8 word list" where
  "le_bytes 0 v = []"
| "le_bytes (Suc k) v = of_nat (v mod 256) # le_bytes k (v div 256)"

fun le_value :: "8 word list \<Rightarrow> nat" where
  "le_value [] = 0"
| "le_value (b # bs) = unat b + 256 * le_value bs"

text \<open>The eight bytes of a double in the given order, and the double of eight bytes.\<close>

definition double_bytes :: "byteorder \<Rightarrow> double \<Rightarrow> 8 word list" where
  "double_bytes bo w =
     (case bo of
        Little \<Rightarrow> le_bytes 8 (unat w)
      | Big \<Rightarrow> rev (le_bytes 8 (unat w)))"

definition bytes_double :: "byteorder \<Rightarrow> 8 word list \<Rightarrow> double" where
  "bytes_double bo bs =
     (case bo of
        Little \<Rightarrow> of_nat (le_value bs)
      | Big \<Rightarrow> of_nat (le_value (rev bs)))"

text \<open>
  \<^verbatim>\<open>array('d', items)\<close>: the items as doubles; an integer item is converted.
\<close>

fun array_d :: "pyval list \<Rightarrow> py_error + double list" where
  "array_d [] = Inr []"
| "array_d (PyFloat f # rest) =
     (case array_d rest of Inl e \<Rightarrow> Inl e | Inr ds \<Rightarrow> Inr (bits f # ds))"
| "array_d (PyInt i # rest) =
     (case float_of_int i of
        Inl e \<Rightarrow> Inl e
      | Inr d \<Rightarrow> (case array_d rest of Inl e \<Rightarrow> Inl e | Inr ds \<Rightarrow> Inr (d # ds)))"

text \<open>\<^verbatim>\<open>bytes(a)\<close> of an array of doubles: the items one after the other.\<close>

definition array_bytes :: "byteorder \<Rightarrow> double list \<Rightarrow> 8 word list" where
  "array_bytes bo ds = concat (map (double_bytes bo) ds)"

text \<open>\<^verbatim>\<open>__bytes__\<close>: \<^verbatim>\<open>bytes(array(Vector2d.typecode, self))\<close>, with typecode \<^verbatim>\<open>'d'\<close>.\<close>

definition Vector2d_bytes :: "byteorder \<Rightarrow> Vector2d \<Rightarrow> py_error + 8 word list" where
  "Vector2d_bytes bo self =
     (case array_d (Vector2d_iter self) of
        Inl e \<Rightarrow> Inl e
      | Inr a \<Rightarrow> Inr (array_bytes bo a))"

text \<open>
  \<^verbatim>\<open>memoryview(octets).cast('d')\<close>: the bytes eight by eight; TypeError when the
  length is not a multiple of the item size.
\<close>

fun items_d :: "byteorder \<Rightarrow> 8 word list \<Rightarrow> double list" where
  "items_d bo (b0 # b1 # b2 # b3 # b4 # b5 # b6 # b7 # rest) =
     bytes_double bo [b0, b1, b2, b3, b4, b5, b6, b7] # items_d bo rest"
| "items_d bo _ = []"

definition cast_d :: "byteorder \<Rightarrow> 8 word list \<Rightarrow> py_error + double list" where
  "cast_d bo octets =
     (if length octets mod 8 \<noteq> 0 then Inl TypeError else Inr (items_d bo octets))"

text \<open>The float objects made of a list of doubles, with identities from \<open>n\<close> on.\<close>

fun new_floats :: "double list \<Rightarrow> nat \<Rightarrow> pyfloat list" where
  "new_floats [] n = []"
| "new_floats (d # ds) n = \<lparr>ident = n, bits = d\<rparr> # new_floats ds (Suc n)"

text \<open>
  \<^verbatim>\<open>frombytes\<close>: \<^verbatim>\<open>cls(*memv)\<close> reads every item of the view into a new float
  object and calls the class with them; the call is a TypeError unless there are exactly
  two.
\<close>

definition frombytes :: "byteorder \<Rightarrow> 8 word list \<Rightarrow> nat \<Rightarrow> (py_error + Vector2d) \<times> nat" where
  "frombytes bo octets n =
     (case cast_d bo octets of
        Inl e \<Rightarrow> (Inl e, n)
      | Inr memv \<Rightarrow>
          (case new_floats memv n of
             [a, b] \<Rightarrow> Vector2d_init (PyFloat a) (PyFloat b) (n + 2)
           | args \<Rightarrow> (Inl TypeError, n + length args)))"

subsection \<open>Attribute assignment\<close>

text \<open>
  The names the class body binds: the class attribute \<^verbatim>\<open>typecode\<close>, the functions,
  and \<^verbatim>\<open>x\<close> and \<^verbatim>\<open>y\<close>, which are made with \<^verbatim>\<open>@property\<close> and are given no
  setter.
\<close>

datatype member = ClassAttribute | Function | ReadOnlyProperty

definition Vector2d_class :: "string \<Rightarrow> member option" where
  "Vector2d_class name =
     (if name = ''typecode'' then Some ClassAttribute
      else if name = ''x'' \<or> name = ''y'' then Some ReadOnlyProperty
      else if name \<in> set [''__init__'', ''__iter__'', ''__repr__'', ''__str__'', ''__bytes__'',
                ''__eq__'', ''__hash__'', ''__abs__'', ''__bool__'', ''angle'', ''__format__'',
                ''frombytes'']
        then Some Function
      else None)"

text \<open>
  The instance dictionary after \<^verbatim>\<open>__init__\<close>: the two private attributes under their
  mangled names.
\<close>

definition instance_dict :: "Vector2d \<Rightarrow> (string \<times> pyval) list" where
  "instance_dict self =
     [(''_Vector2d__x'', PyFloat (private_x self)), (''_Vector2d__y'', PyFloat (private_y self))]"

text \<open>
  \<^verbatim>\<open>self.name = val\<close>: a property of the class takes the assignment, and a property
  without a setter raises AttributeError; any other name is stored in the instance
  dictionary.  The result is the outcome and the instance dictionary after the statement.
\<close>

definition py_setattr ::
  "Vector2d \<Rightarrow> string \<Rightarrow> pyval \<Rightarrow> (py_error + unit) \<times> (string \<times> pyval) list" where
  "py_setattr self name val =
     (case Vector2d_class name of
        Some ReadOnlyProperty \<Rightarrow>
          (Inl (AttributeError (''can'' @ [CHR 0x27] @ ''t set attribute'')), instance_dict self)
      | _ \<Rightarrow> (Inr (), AList.update name val (instance_dict self)))"

subsection \<open>Magnitude, truth value, angle\<close>

text \<open>The integer square root: the largest \<open>r\<close> with \<open>r * r \<le> n\<close>, bit by bit.\<close>

fun sqrt_bits :: "nat \<Rightarrow> nat \<Rightarrow> nat \<Rightarrow> nat" where
  "sqrt_bits 0 r n = r"
| "sqrt_bits (Suc k) r n =
     (if (r + 2 ^ k) * (r + 2 ^ k) \<le> n then sqrt_bits k (r + 2 ^ k) n else sqrt_bits k r n)"

definition isqrt :: "nat \<Rightarrow> nat" where
  "isqrt n = sqrt_bits (Suc (bit_length n) div 2) 0 n"

text \<open>
  \<^verbatim>\<open>math.hypot(a, b)\<close>: infinity when an argument is infinite, else NaN when one is
  NaN, else the Euclidean norm \<open>sqrt (a\<^sup>2 + b\<^sup>2)\<close>, computed without intermediate
  overflow or underflow and rounded to the nearest double.  With \<open>e\<close> the smaller
  exponent, \<open>a\<^sup>2 + b\<^sup>2\<close> is \<open>s * 4 ^ e\<close> for the integer \<open>s\<close> below; its root is taken
  with 64 further bits.
\<close>

definition hypot :: "double \<Rightarrow> double \<Rightarrow> double" where
  "hypot a b =
     (if is_inf a \<or> is_inf b then 0x7FF0000000000000
      else if is_nan a \<or> is_nan b then 0x7FF8000000000000
      else
        (let e = min (exp2 a) (exp2 b);
             ma = mant a * 2 ^ nat (exp2 a - e);
             mb = mant b * 2 ^ nat (exp2 b - e);
             s = (ma * ma + mb * mb) * 2 ^ 128;
             r = isqrt s
         in round_pos r (e - 64) (r * r \<noteq> s)))"

text \<open>\<^verbatim>\<open>__abs__\<close>: \<^verbatim>\<open>math.hypot(self.x, self.y)\<close>.\<close>

definition Vector2d_abs :: "Vector2d \<Rightarrow> double" where
  "Vector2d_abs self = hypot (bits (x_prop self)) (bits (y_prop self))"

text \<open>\<^verbatim>\<open>bool\<close> of a float: false for the two zeros, true for anything else.\<close>

definition float_bool :: "double \<Rightarrow> bool" where
  "float_bool w = (\<not> is_zero w)"

text \<open>\<^verbatim>\<open>__bool__\<close>: \<^verbatim>\<open>bool(abs(self))\<close>.\<close>

definition Vector2d_bool :: "Vector2d \<Rightarrow> bool" where
  "Vector2d_bool self = float_bool (Vector2d_abs self)"

text \<open>
  \<^verbatim>\<open>math.atan2(y, x)\<close>, the angle of the point \<open>(x, y)\<close> in \<open>(-pi, pi]\<close>.  The cases
  with a NaN, an infinity or a zero \<open>y\<close> are those of CPython's \<^verbatim>\<open>m_atan2\<close>, which
  returns a constant with the sign of \<open>y\<close>.  For the other arguments CPython calls the
  C library, whose result is within one unit in the last place; here it is the arc
  tangent rounded to the nearest double.

  The arc tangent is computed on natural numbers, in units of \<open>2\<^sup>-\<^sup>p\<close>.  \<open>pi_fixed p\<close> is
  \<open>pi\<close> in these units, from its first 128 binary places.
\<close>

definition copysign :: "double \<Rightarrow> double \<Rightarrow> double" where
  "copysign a b = (if sign_of b then float_neg (float_abs a) else float_abs a)"

definition pi_fixed :: "nat \<Rightarrow> nat" where
  "pi_fixed p = 0x3243F6A8885A308D313198A2E03707344 * 2 ^ (p - 128)"

text \<open>
  The series \<open>u - u\<^sup>3 / 3 + u\<^sup>5 / 5 - \<dots>\<close>: \<open>pw\<close> is the current odd power of \<open>u\<close>, \<open>u2\<close> the
  square of \<open>u\<close> and \<open>2 * i + 1\<close> the exponent.  The terms are used while they are not zero.
\<close>

function atan_terms :: "nat \<Rightarrow> nat \<Rightarrow> nat \<Rightarrow> nat \<Rightarrow> int" where
  "atan_terms p u2 pw i =
     (if pw = 0 \<or> 2 ^ p \<le> u2 then 0
      else int (pw div (2 * i + 1)) - atan_terms p u2 (pw * u2 div 2 ^ p) (i + 1))"
  by pat_completeness auto

termination
proof (relation "measure (\<lambda>(p, u2, pw, i). pw)")
  show "wf (measure (\<lambda>(p, u2, pw, i). pw))"
    by simp
next
  fix p u2 pw i :: nat
  assume "\<not> (pw = 0 \<or> 2 ^ p \<le> u2)"
  then have "pw * u2 < pw * 2 ^ p"
    by simp
  then have "pw * u2 div 2 ^ p < pw"
    by (simp add: less_mult_imp_div_less)
  then show "((p, u2, pw * u2 div 2 ^ p, i + 1), (p, u2, pw, i)) \<in> measure (\<lambda>(p, u2, pw, i). pw)"
    by simp
qed

declare atan_terms.simps [simp del]

text \<open>
  The arc tangent of \<open>n / d\<close> for \<open>n \<le> d\<close>: by the series when \<open>n / d \<le> 5 / 12\<close>, and else
  as \<open>pi / 4 - arctan ((d - n) / (d + n))\<close>, where the series is applied to a number
  below \<open>7 / 17\<close>.
\<close>

definition atan_small :: "nat \<Rightarrow> nat \<Rightarrow> nat \<Rightarrow> nat" where
  "atan_small p n d = (let u = n * 2 ^ p div d in nat (atan_terms p (u * u div 2 ^ p) u 0))"

definition atan_unit :: "nat \<Rightarrow> nat \<Rightarrow> nat \<Rightarrow> nat" where
  "atan_unit p n d =
     (if 12 * n \<le> 5 * d then atan_small p n d
      else pi_fixed p div 4 - atan_small p (d - n) (d + n))"

text \<open>
  In the general case \<open>my\<close> and \<open>mx\<close> are \<open>\<bar>y\<bar>\<close> and \<open>\<bar>x\<bar>\<close> as integers, in a common unit;
  \<open>a\<close> is the arc tangent of the smaller over the larger one, taken with 128 binary
  places and as many more as the quotient has leading zeros; \<open>b\<close> is the angle of
  \<open>(\<bar>x\<bar>, \<bar>y\<bar>)\<close> and \<open>c\<close> that of \<open>(x, \<bar>y\<bar>)\<close>.
\<close>

definition atan2 :: "double \<Rightarrow> double \<Rightarrow> double" where
  "atan2 y x =
     (if is_nan x \<or> is_nan y then 0x7FF8000000000000
      else if is_inf y then
        (if is_inf x then
           (if sign_of x then copysign 0x4002D97C7F3321D2 y else copysign 0x3FE921FB54442D18 y)
         else copysign 0x3FF921FB54442D18 y)
      else if is_inf x \<or> is_zero y then
        (if sign_of x then copysign 0x400921FB54442D18 y else copysign 0 y)
      else
        (let e = min (exp2 y) (exp2 x);
             my = mant y * 2 ^ nat (exp2 y - e);
             mx = mant x * 2 ^ nat (exp2 x - e);
             n = min mx my;
             d = max mx my;
             p = 128 + (bit_length d - bit_length n);
             a = atan_unit p n d;
             b = (if mx < my then pi_fixed p div 2 - a else a);
             c = (if sign_of x then pi_fixed p - b else b)
         in copysign (round_pos c (- int p) False) y))"

text \<open>\<^verbatim>\<open>angle\<close>: \<^verbatim>\<open>math.atan2(self.y, self.x)\<close>.\<close>

definition angle :: "Vector2d \<Rightarrow> double" where
  "angle self = atan2 (bits (y_prop self)) (bits (x_prop self))"

subsection \<open>Floats and text\<close>

text \<open>
  A float literal \<open>d * 10 ^ k\<close> denotes the nearest double, ties to even (and infinity
  when it is too large).  For a negative \<open>k\<close> the quotient is taken with enough binary
  digits for \<open>round_pos\<close>, and the remainder is the sticky bit.
\<close>

definition round_dec :: "nat \<Rightarrow> int \<Rightarrow> double" where
  "round_dec d k =
     (if 0 \<le> k then round_pos (d * 10 ^ nat k) 0 False
      else
        (let den = 10 ^ nat (- k);
             s = bit_length den + 54;
             num = d * 2 ^ s
         in round_pos (num div den) (- int s) (num mod den \<noteq> 0)))"

text \<open>\<open>d * 10 ^ k\<close> with the trailing zeros of \<open>d\<close> moved into the exponent.\<close>

fun strip_zeros :: "nat \<Rightarrow> int \<Rightarrow> nat \<times> int" where
  "strip_zeros d k =
     (if d \<noteq> 0 \<and> d mod 10 = 0 then strip_zeros (d div 10) (k + 1) else (d, k))"

declare strip_zeros.simps [simp del]

definition read_dec :: "nat \<Rightarrow> int \<Rightarrow> double" where
  "read_dec d k = (case strip_zeros d k of (d', k') \<Rightarrow> round_dec d' k')"

text \<open>
  The exact decimal expansion of \<open>m * 2 ^ e\<close>: digits \<open>d\<close> and exponent \<open>k\<close> with
  \<open>m * 2 ^ e = d * 10 ^ k\<close>.
\<close>

definition dec_exact :: "nat \<Rightarrow> int \<Rightarrow> nat \<times> int" where
  "dec_exact m e = (if 0 \<le> e then (m * 2 ^ nat e, 0) else (m * 5 ^ nat (- e), e))"

text \<open>
  \<^verbatim>\<open>repr\<close> of a float gives the shortest decimal that reads back as the same float,
  and of several shortest ones the nearest.  \<open>search w d k t\<close> looks for it from the exact
  expansion \<open>d * 10 ^ k\<close> of the positive double \<open>w\<close>: with \<open>t\<close> digits dropped the
  candidates are the expansion cut off and the next decimal above; when neither reads
  back as \<open>w\<close> one digit more is kept.  With nothing dropped the expansion is exact.
\<close>

fun search :: "double \<Rightarrow> nat \<Rightarrow> int \<Rightarrow> nat \<Rightarrow> nat \<times> int" where
  "search w d k 0 = (d, k)"
| "search w d k (Suc t) =
     (let p = 10 ^ Suc t;
          lo = d div p;
          r = d mod p;
          k' = k + int (Suc t);
          lo_ok = (read_dec lo k' = w);
          hi_ok = (read_dec (Suc lo) k' = w);
          hi_nearer = (2 * r > p \<or> (2 * r = p \<and> odd lo))
      in if lo_ok \<and> hi_ok then (if hi_nearer then (Suc lo, k') else (lo, k'))
         else if lo_ok then (lo, k')
         else if hi_ok then (Suc lo, k')
         else search w d k t)"

definition shortest :: "double \<Rightarrow> nat \<times> int" where
  "shortest w =
     (case dec_exact (mant w) (exp2 w) of
        (d, k) \<Rightarrow>
          (case search (float_abs w) d k (length (digits d) - 1) of
             (d', k') \<Rightarrow> strip_zeros d' k'))"

text \<open>
  The layout \<^verbatim>\<open>repr\<close> gives the digits \<open>ds\<close>, of which \<open>decpt\<close> stand before the
  decimal point: plain notation when \<open>-4 < decpt \<le> 16\<close>, with \<^verbatim>\<open>.0\<close> added to a whole
  number; otherwise one digit before the point and an exponent of two digits or more.
\<close>

definition pad2 :: "string \<Rightarrow> string" where
  "pad2 s = (if length s < 2 then CHR ''0'' # s else s)"

definition layout :: "string \<Rightarrow> int \<Rightarrow> string" where
  "layout ds decpt =
     (if - 4 < decpt \<and> decpt \<le> 16 then
        (if decpt \<le> 0 then ''0.'' @ replicate (nat (- decpt)) CHR ''0'' @ ds
         else if decpt < int (length ds) then take (nat decpt) ds @ ''.'' @ drop (nat decpt) ds
         else ds @ replicate (nat decpt - length ds) CHR ''0'' @ ''.0'')
      else
        take 1 ds @ (if 1 < length ds then ''.'' @ drop 1 ds else []) @ ''e'' @
        (if decpt - 1 < 0 then ''-'' else ''+'') @ pad2 (digits (nat \<bar>decpt - 1\<bar>)))"

text \<open>\<^verbatim>\<open>repr\<close> of a float.\<close>

definition float_repr :: "double \<Rightarrow> string" where
  "float_repr w =
     (if is_nan w then ''nan''
      else if is_inf w then (if sign_of w then ''-inf'' else ''inf'')
      else
        (if sign_of w then ''-'' else []) @
        (if is_zero w then ''0.0''
         else (case shortest w of (d, k) \<Rightarrow> layout (digits d) (int (length (digits d)) + k))))"

text \<open>\<^verbatim>\<open>__repr__\<close>: \<^verbatim>\<open>'Vector2d({!r}, {!r})'.format(*self)\<close>.\<close>

definition Vector2d_repr :: "Vector2d \<Rightarrow> string" where
  "Vector2d_repr self =
     ''Vector2d('' @ float_repr (bits (x_prop self)) @ '', '' @
       float_repr (bits (y_prop self)) @ '')''"

text \<open>
  \<open>d * 10 ^ k\<close> and \<open>m * 2 ^ e\<close> are the same number; stated on natural numbers, with
  the negative powers on the other side.
\<close>

definition same_value :: "nat \<Rightarrow> int \<Rightarrow> nat \<Rightarrow> int \<Rightarrow> bool" where
  "same_value d k m e \<longleftrightarrow>
     d * 10 ^ nat k * 2 ^ nat (- e) = m * 2 ^ nat e * 10 ^ nat (- k)"

subsection \<open>Evaluating a representation\<close>

text \<open>
  Number literals.  \<open>number_literal\<close> reads a whole token: digits, an optional fraction,
  an optional exponent.  Without a fraction and an exponent it is an integer literal
  (which may not begin with a zero unless it is zero), else a float literal with its
  digits and decimal exponent.  \<open>None\<close> is a syntax error.
\<close>

definition is_digit :: "char \<Rightarrow> bool" where
  "is_digit c = (48 \<le> (of_char c :: nat) \<and> (of_char c :: nat) \<le> 57)"

definition nat_of_digits :: "string \<Rightarrow> nat" where
  "nat_of_digits s = foldl (\<lambda>a c. 10 * a + (of_char c - 48)) 0 s"

datatype literal = IntLit nat | FloatLit nat int

definition exponent_part :: "string \<Rightarrow> int option" where
  "exponent_part s =
     (case s of
        [] \<Rightarrow> Some 0
      | c # r \<Rightarrow>
          if c = CHR ''e'' \<or> c = CHR ''E'' then
            (let neg = (r \<noteq> [] \<and> hd r = CHR ''-'');
                 ds = (if r \<noteq> [] \<and> (hd r = CHR ''-'' \<or> hd r = CHR ''+'') then tl r else r)
             in if ds = [] \<or> \<not> list_all is_digit ds then None
                else Some (if neg then - int (nat_of_digits ds) else int (nat_of_digits ds)))
          else None)"

definition number_literal :: "string \<Rightarrow> literal option" where
  "number_literal s =
     (let ip = takeWhile is_digit s;
          r1 = dropWhile is_digit s
      in if r1 = [] then
           (if ip = [] \<or> (1 < length ip \<and> hd ip = CHR ''0'' \<and> nat_of_digits ip \<noteq> 0) then None
            else Some (IntLit (nat_of_digits ip)))
         else
           (let dot = (hd r1 = CHR ''.'');
                fp = (if dot then takeWhile is_digit (tl r1) else []);
                r2 = (if dot then dropWhile is_digit (tl r1) else r1)
            in if ip = [] \<and> fp = [] then None
               else
                 (case exponent_part r2 of
                    None \<Rightarrow> None
                  | Some ex \<Rightarrow> Some (FloatLit (nat_of_digits (ip @ fp)) (ex - int (length fp))))))"

text \<open>
  The expressions that can stand as an argument: a number literal, a name, and the
  negation of one of these.
\<close>

datatype expr = Number literal | Name string | Neg expr

definition is_name_char :: "char \<Rightarrow> bool" where
  "is_name_char c =
     (let n = (of_char c :: nat)
      in (65 \<le> n \<and> n \<le> 90) \<or> (97 \<le> n \<and> n \<le> 122) \<or> n = 95 \<or> (48 \<le> n \<and> n \<le> 57))"

definition parse_operand :: "string \<Rightarrow> expr option" where
  "parse_operand s =
     (case s of
        [] \<Rightarrow> None
      | c # r \<Rightarrow>
          if is_digit c \<or> c = CHR ''.'' then map_option Number (number_literal s)
          else if list_all is_name_char s then Some (Name s)
          else None)"

definition parse_arg :: "string \<Rightarrow> expr option" where
  "parse_arg s =
     (case s of
        [] \<Rightarrow> None
      | c # r \<Rightarrow> if c = CHR ''-'' then map_option Neg (parse_operand r) else parse_operand s)"

definition strip :: "string \<Rightarrow> string" where
  "strip s = rev (dropWhile (\<lambda>c. c = CHR '' '') (rev (dropWhile (\<lambda>c. c = CHR '' '') s)))"

text \<open>
  A call with two positional arguments, \<^verbatim>\<open>name(arg, arg)\<close>: the name and the two
  arguments.  Other expressions are not modelled (\<open>None\<close>).
\<close>

definition parse_call :: "string \<Rightarrow> (string \<times> expr \<times> expr) option" where
  "parse_call s =
     (let f = takeWhile (\<lambda>c. c \<noteq> CHR ''('') s;
          r = dropWhile (\<lambda>c. c \<noteq> CHR ''('') s
      in if r = [] \<or> last r \<noteq> CHR '')'' \<or> length r < 2 then None
         else
           (let inner = butlast (tl r);
                a1 = takeWhile (\<lambda>c. c \<noteq> CHR '','') inner;
                r2 = dropWhile (\<lambda>c. c \<noteq> CHR '','') inner
            in if r2 = [] then None
               else
                 (case (parse_arg (strip a1), parse_arg (strip (tl r2))) of
                    (Some x, Some y) \<Rightarrow> Some (f, x, y)
                  | _ \<Rightarrow> None)))"

text \<open>
  Evaluation of an argument.  A float literal makes a new float object.  The names
  \<^verbatim>\<open>inf\<close> and \<^verbatim>\<open>nan\<close> are bound neither in the module nor among the built-ins:
  they raise NameError.  Other names are not modelled.
\<close>

fun eval_expr :: "expr \<Rightarrow> nat \<Rightarrow> ((py_error + pyval) \<times> nat) option" where
  "eval_expr (Number (IntLit i)) n = Some (Inr (PyInt (int i)), n)"
| "eval_expr (Number (FloatLit d k)) n = Some (Inr (PyFloat \<lparr>ident = n, bits = read_dec d k\<rparr>), Suc n)"
| "eval_expr (Name s) n =
     (if s = ''inf'' \<or> s = ''nan'' then Some (Inl (NameError s), n) else None)"
| "eval_expr (Neg e) n =
     (case eval_expr e n of
        None \<Rightarrow> None
      | Some (Inl err, n') \<Rightarrow> Some (Inl err, n')
      | Some (Inr (PyInt i), n') \<Rightarrow> Some (Inr (PyInt (- i)), n')
      | Some (Inr (PyFloat f), n') \<Rightarrow>
          Some (Inr (PyFloat \<lparr>ident = n', bits = float_neg (bits f)\<rparr>), Suc n'))"

text \<open>
  \<^verbatim>\<open>eval(s)\<close> where the class is bound to its name: a call of \<^verbatim>\<open>Vector2d\<close> with
  two arguments, evaluated from left to right.
\<close>

definition py_eval :: "string \<Rightarrow> nat \<Rightarrow> ((py_error + Vector2d) \<times> nat) option" where
  "py_eval s n =
     (case parse_call s of
        None \<Rightarrow> None
      | Some (f, a, b) \<Rightarrow>
          if f \<noteq> ''Vector2d'' then None
          else
            (case eval_expr a n of
               None \<Rightarrow> None
             | Some (Inl e, n1) \<Rightarrow> Some (Inl e, n1)
             | Some (Inr x, n1) \<Rightarrow>
                 (case eval_expr b n1 of
                    None \<Rightarrow> None
                  | Some (Inl e, n2) \<Rightarrow> Some (Inl e, n2)
                  | Some (Inr y, n2) \<Rightarrow> Some (Vector2d_init x y n2))))"

text \<open>The characters of the representation of a finite float.\<close>

definition num_char :: "char \<Rightarrow> bool" where
  "num_char c \<longleftrightarrow> is_digit c \<or> c = CHR ''.'' \<or> c = CHR ''e'' \<or> c = CHR ''+'' \<or> c = CHR ''-''"

subsection \<open>The built-in \<^verbatim>\<open>format\<close> on a float\<close>

text \<open>
  \<open>d\<close> divided by \<open>10 ^ t\<close> and rounded to the nearest integer, ties to even; and the
  number \<open>d * 10 ^ k\<close> in units of \<open>10 ^ j\<close>, rounded in the same way.
\<close>

definition round_digits :: "nat \<Rightarrow> nat \<Rightarrow> nat" where
  "round_digits d t =
     (let p = 10 ^ t; q = d div p; r = d mod p
      in if 2 * r > p \<or> (2 * r = p \<and> odd q) then Suc q else q)"

definition to_scale :: "nat \<Rightarrow> int \<Rightarrow> int \<Rightarrow> nat" where
  "to_scale d k j = (if j \<le> k then d * 10 ^ nat (k - j) else round_digits d (nat (j - k)))"

text \<open>
  The presentation type \<^verbatim>\<open>f\<close> of a finite positive double: \<open>prec\<close> digits after the
  point, and no point when there are none.
\<close>

definition fixed_digits :: "double \<Rightarrow> nat \<Rightarrow> string" where
  "fixed_digits w prec =
     (case dec_exact (mant w) (exp2 w) of
        (d, k) \<Rightarrow>
          (let ds = digits (to_scale d k (- int prec));
               ds' = replicate (Suc prec - length ds) CHR ''0'' @ ds;
               ip = take (length ds' - prec) ds';
               fp = drop (length ds' - prec) ds'
           in if prec = 0 then ip else ip @ ''.'' @ fp))"

text \<open>
  The presentation type \<^verbatim>\<open>e\<close>: one digit, \<open>prec\<close> digits after the point, and the
  decimal exponent \<open>x\<close> with its sign and two digits or more.  \<open>x0\<close> is the exponent of
  the first digit of the exact expansion; rounding may carry into one digit more.
\<close>

definition exp_digits :: "double \<Rightarrow> nat \<Rightarrow> string" where
  "exp_digits w prec =
     (case dec_exact (mant w) (exp2 w) of
        (d, k) \<Rightarrow>
          (let x0 = (if d = 0 then 0 else int (length (digits d)) + k - 1);
               n0 = to_scale d k (x0 - int prec);
               carry = (length (digits n0) = prec + 2);
               x = (if carry then x0 + 1 else x0);
               ds = (if d = 0 then replicate (Suc prec) CHR ''0''
                     else digits (if carry then n0 div 10 else n0))
           in take 1 ds @ (if prec = 0 then [] else ''.'' @ drop 1 ds) @ ''e'' @
              (if x < 0 then ''-'' else ''+'') @ pad2 (digits (nat \<bar>x\<bar>))))"

text \<open>
  A format specifier is \<^verbatim>\<open>[[fill]align][sign][z][#][0][width][grouping][.precision][type]\<close>.
  The specifiers modelled are those without \<^verbatim>\<open>z\<close>, \<^verbatim>\<open>#\<close> and grouping, with a width and
  a precision of nine digits at most, and with one of the types \<^verbatim>\<open>e\<close>, \<^verbatim>\<open>E\<close>, \<^verbatim>\<open>f\<close>,
  \<^verbatim>\<open>F\<close>, or with neither a type nor a precision, which gives the \<^verbatim>\<open>repr\<close>.  For
  another specifier that Python accepts the result is \<open>None\<close>: it is not modelled.  A
  specifier that Python rejects gives \<^verbatim>\<open>ValueError\<close>.

  \<open>s1\<close> to \<open>s5\<close> are what is left of the specifier after the alignment, the sign, the
  zero, the width and the precision.  A zero before the width fills with zeros, after the
  sign unless an alignment is given.
\<close>

datatype presentation = Fixed | Exponent | Repr

record format_spec =
  fill_char :: char
  align :: char
  sign :: char
  width :: nat
  precision :: nat
  kind :: presentation
  upper :: bool

definition is_align :: "char \<Rightarrow> bool" where
  "is_align c = (c \<in> set ''<>=^'')"

definition parse_format_spec :: "string \<Rightarrow> (py_error + format_spec) option" where
  "parse_format_spec s0 =
     (let fill_given = (2 \<le> length s0 \<and> is_align (s0 ! 1));
          align_given = (fill_given \<or> (s0 \<noteq> [] \<and> is_align (hd s0)));
          s1 = (if fill_given then drop 2 s0 else if align_given then tl s0 else s0);
          sign_given = (s1 \<noteq> [] \<and> hd s1 \<in> set ''+- '');
          s2 = (if sign_given then tl s1 else s1);
          zero = (\<not> fill_given \<and> s2 \<noteq> [] \<and> hd s2 = CHR ''0'');
          s3 = (if zero then tl s2 else s2);
          wd = takeWhile is_digit s3;
          s4 = dropWhile is_digit s3;
          dot = (s4 \<noteq> [] \<and> hd s4 = CHR ''.'');
          pd = (if dot then takeWhile is_digit (tl s4) else []);
          s5 = (if dot then dropWhile is_digit (tl s4) else s4);
          spec = \<lparr>fill_char = (if fill_given then hd s0 else if zero then CHR ''0'' else CHR '' ''),
                  align = (if fill_given then s0 ! 1 else if align_given then hd s0
                           else if zero then CHR ''='' else CHR ''>''),
                  sign = (if sign_given then hd s1 else CHR ''-''),
                  width = nat_of_digits wd,
                  precision = (if dot then nat_of_digits pd else 6),
                  kind = (if s5 = [] then Repr
                          else if hd s5 \<in> set ''eE'' then Exponent else Fixed),
                  upper = (s5 \<noteq> [] \<and> hd s5 \<in> set ''EF'')\<rparr>
      in if s2 \<noteq> [] \<and> hd s2 \<in> set ''z#'' then None
         else if 9 < length wd then None
         else if s4 \<noteq> [] \<and> hd s4 \<in> set '',_'' then None
         else if dot \<and> pd = [] then Some (Inl ValueError)
         else if 9 < length pd then None
         else if 1 < length s5 then Some (Inl ValueError)
         else if s5 = [] then (if dot then None else Some (Inr spec))
         else if hd s5 \<in> set ''eEfF'' then Some (Inr spec)
         else if hd s5 \<in> set ''gGn%'' \<or> hd s5 = CHR 0x00 then None
         else Some (Inl ValueError))"

text \<open>
  The text of the magnitude, in capitals for the types \<^verbatim>\<open>E\<close> and \<^verbatim>\<open>F\<close>; the sign,
  which a NaN does not have; and the padding to the width.
\<close>

definition to_upper :: "char \<Rightarrow> char" where
  "to_upper c = (if 97 \<le> (of_char c :: nat) \<and> (of_char c :: nat) \<le> 122
                 then char_of (of_char c - (32 :: nat)) else c)"

definition number_text :: "format_spec \<Rightarrow> double \<Rightarrow> string" where
  "number_text spec w =
     (let a = float_abs w;
          body = (if is_nan w then ''nan'' else if is_inf w then ''inf''
                  else case kind spec of
                         Repr \<Rightarrow> float_repr a
                       | Fixed \<Rightarrow> fixed_digits a (precision spec)
                       | Exponent \<Rightarrow> exp_digits a (precision spec))
      in if upper spec then map to_upper body else body)"

definition sign_text :: "format_spec \<Rightarrow> double \<Rightarrow> string" where
  "sign_text spec w =
     (if sign_of w \<and> \<not> is_nan w then ''-''
      else if sign spec = CHR ''+'' then ''+''
      else if sign spec = CHR '' '' then '' ''
      else [])"

definition pad :: "format_spec \<Rightarrow> string \<Rightarrow> string \<Rightarrow> string" where
  "pad spec sg body =
     (let n = width spec - (length sg + length body);
          f = fill_char spec
      in if align spec = CHR ''<'' then sg @ body @ replicate n f
         else if align spec = CHR ''^'' then
           replicate (n div 2) f @ sg @ body @ replicate (n - n div 2) f
         else if align spec = CHR ''='' then sg @ replicate n f @ body
         else replicate n f @ sg @ body)"

text \<open>
  \<^verbatim>\<open>format(c, fmt_spec)\<close> for a float \<open>c\<close>; with the empty specifier it is \<^verbatim>\<open>str(c)\<close>,
  which for a float is \<^verbatim>\<open>repr(c)\<close>.
\<close>

definition format_float :: "double \<Rightarrow> string \<Rightarrow> (py_error + string) option" where
  "format_float w fmt_spec =
     (if fmt_spec = [] then Some (Inr (float_repr w))
      else case parse_format_spec fmt_spec of
             None \<Rightarrow> None
           | Some (Inl e) \<Rightarrow> Some (Inl e)
           | Some (Inr spec) \<Rightarrow> Some (Inr (pad spec (sign_text spec w) (number_text spec w))))"

subsection \<open>Formatting\<close>

text \<open>\<^verbatim>\<open>fmt_spec.endswith('p')\<close> and \<^verbatim>\<open>fmt_spec[:-1]\<close>.\<close>

definition endswith_p :: "string \<Rightarrow> bool" where
  "endswith_p fmt_spec = (fmt_spec \<noteq> [] \<and> last fmt_spec = CHR ''p'')"

text \<open>
  Unpacking the generator \<^verbatim>\<open>components\<close> formats the coordinates in order; the first
  one that raises ends the call.  The result is \<open>None\<close> when it depends on a specifier
  that is not modelled.
\<close>

fun unpack :: "(py_error + 'a) option list \<Rightarrow> (py_error + 'a list) option" where
  "unpack [] = Some (Inr [])"
| "unpack (None # rest) = None"
| "unpack (Some (Inl e) # rest) = Some (Inl e)"
| "unpack (Some (Inr a) # rest) =
     (case unpack rest of
        None \<Rightarrow> None
      | Some (Inl e) \<Rightarrow> Some (Inl e)
      | Some (Inr as) \<Rightarrow> Some (Inr (a # as)))"

text \<open>
  \<^verbatim>\<open>outer_fmt.format(*components)\<close> for the two templates \<^verbatim>\<open>'<{}, {}>'\<close> and
  \<^verbatim>\<open>'({}, {})'\<close>, given by their brackets.
\<close>

definition outer_format :: "string \<Rightarrow> string \<Rightarrow> string list \<Rightarrow> string" where
  "outer_format l r components = l @ components ! 0 @ '', '' @ components ! 1 @ r"

text \<open>\<^verbatim>\<open>__format__\<close>.\<close>

definition Vector2d_format :: "Vector2d \<Rightarrow> string \<Rightarrow> (py_error + string) option" where
  "Vector2d_format self fmt_spec =
     (if endswith_p fmt_spec then
        (let fmt_spec' = butlast fmt_spec;
             coords = [Vector2d_abs self, angle self]
         in case unpack (map (\<lambda>c. format_float c fmt_spec') coords) of
              None \<Rightarrow> None
            | Some (Inl e) \<Rightarrow> Some (Inl e)
            | Some (Inr components) \<Rightarrow> Some (Inr (outer_format ''<'' ''>'' components)))
      else
        (let coords = [bits (x_prop self), bits (y_prop self)]
         in case unpack (map (\<lambda>c. format_float c fmt_spec) coords) of
              None \<Rightarrow> None
            | Some (Inl e) \<Rightarrow> Some (Inl e)
            | Some (Inr components) \<Rightarrow> Some (Inr (outer_format ''('' '')'' components))))"

section \<open>Properties of the record loader\<close>

lemma fetch_cached: "map_of (cache s) k = Some r \<Longrightarrow> fetch k s = (Inr r, s)"
  by (simp add: fetch_def)

lemma fetch_keeps_cache:
  "map_of (cache s) k = Some r \<Longrightarrow> map_of (cache (snd (fetch k' s))) k = Some r"
  by (auto simp: fetch_def Let_def split: option.splits)

lemma fetch_all_keeps_cache:
  "map_of (cache s) k = Some r \<Longrightarrow> map_of (cache (fetch_all ks s)) k = Some r"
  by (induction ks arbitrary: s) (simp_all add: fetch_keeps_cache)

lemma fetch_present:
  assumes "map_of (dataset s) k = Some raw"
  shows "\<exists>r. fst (fetch k s) = Inr r \<and> map_of (cache (snd (fetch k s))) k = Some r"
  using assms by (auto simp: fetch_def Let_def split: option.splits)

lemma fetch_constructs_at_most_one:
  "constructed (snd (fetch k s)) \<le> Suc (constructed s)"
  by (auto simp: fetch_def Let_def split: option.splits)

lemma fetch_dataset [simp]: "dataset (snd (fetch k s)) = dataset s"
  by (auto simp: fetch_def Let_def split: option.splits)

lemma fetch_all_dataset [simp]: "dataset (fetch_all ks s) = dataset s"
  by (induction ks arbitrary: s) simp_all

lemma cache_in_dataset_fetch:
  "dom (map_of (cache s)) \<subseteq> dom (map_of (dataset s)) \<Longrightarrow>
   dom (map_of (cache (snd (fetch k s)))) \<subseteq> dom (map_of (dataset s))"
  by (auto simp: fetch_def Let_def split: option.splits if_splits)

lemma cache_in_dataset_fetch_all:
  "dom (map_of (cache s)) \<subseteq> dom (map_of (dataset s)) \<Longrightarrow>
   dom (map_of (cache (fetch_all ks s))) \<subseteq> dom (map_of (dataset s))"
proof (induction ks arbitrary: s)
  case Nil
  then show ?case by simp
next
  case (Cons k ks)
  from Cons.IH [of "snd (fetch k s)"] cache_in_dataset_fetch [OF Cons.prems]
  show ?case by simp
qed

text \<open>
  Claim C1.  For a composite key present in the dataset, \<open>fetch\<close> returns a record, and
  every later \<open>fetch\<close> of the same key, whatever other keys were fetched in between,
  returns the identical instance (the same identity, variant and fields) and leaves the
  loader as it was: nothing is constructed again.  The first call constructs at most one
  record.
\<close>

theorem fetch_memoized:
  assumes "map_of (dataset s) k = Some raw"
  shows "\<exists>r. fetch k s = (Inr r, snd (fetch k s)) \<and>
             constructed (snd (fetch k s)) \<le> Suc (constructed s) \<and>
             fetch k (fetch_all ks (snd (fetch k s))) = (Inr r, fetch_all ks (snd (fetch k s)))"
proof -
  from fetch_present [OF assms] obtain r where
    r: "fst (fetch k s) = Inr r" and c: "map_of (cache (snd (fetch k s))) k = Some r"
    by blast
  have "fetch k s = (Inr r, snd (fetch k s))"
    using r by (simp add: prod_eq_iff)
  moreover have "fetch k (fetch_all ks (snd (fetch k s))) = (Inr r, fetch_all ks (snd (fetch k s)))"
    by (rule fetch_cached) (rule fetch_all_keeps_cache [OF c])
  ultimately show ?thesis
    using fetch_constructs_at_most_one [of k s] by blast
qed

theorem fetch_memoized_witness:
  "map_of (dataset (start sample)) ''event.33950''
     = Some [(''serial'', JInt 33950), (''name'', JStr ''There *Will* Be Bugs''),
             (''venue_serial'', JInt 1449)] \<and>
   (\<exists>r. fetch ''event.33950'' (start sample) = (Inr r, snd (fetch ''event.33950'' (start sample))) \<and>
        constructed (snd (fetch ''event.33950'' (start sample))) \<le> Suc (constructed (start sample)) \<and>
        fetch ''event.33950'' (fetch_all [''venue.1449''] (snd (fetch ''event.33950'' (start sample))))
          = (Inr r, fetch_all [''venue.1449''] (snd (fetch ''event.33950'' (start sample)))))"
proof -
  have h: "map_of (dataset (start sample)) ''event.33950''
     = Some [(''serial'', JInt 33950), (''name'', JStr ''There *Will* Be Bugs''),
             (''venue_serial'', JInt 1449)]"
    by (simp add: start_def sample_def)
  show ?thesis
    using h fetch_memoized [OF h, of "[''venue.1449'']"] by blast
qed

text \<open>
  Claim C8.  In any state the loader reaches from its start by \<open>fetch\<close> calls, fetching a
  composite key that is not in the dataset fails with the key error, at once, and the
  loader, its cache included, is exactly as before.
\<close>

theorem fetch_missing:
  assumes "map_of d k = None"
  shows "fetch k (fetch_all ks (start d)) = (Inl (KeyError k), fetch_all ks (start d))"
proof -
  have "dom (map_of (cache (fetch_all ks (start d)))) \<subseteq> dom (map_of (dataset (start d)))"
    by (rule cache_in_dataset_fetch_all) (simp add: start_def)
  with assms have "map_of (cache (fetch_all ks (start d))) k = None"
    by (auto simp: start_def dom_def)
  with assms show ?thesis
    by (simp add: fetch_def start_def)
qed

theorem fetch_missing_witness:
  "map_of sample ''speaker.1'' = None \<and>
   fetch ''speaker.1'' (fetch_all [''venue.1449'', ''nowhere.0''] (start sample))
     = (Inl (KeyError ''speaker.1''), fetch_all [''venue.1449'', ''nowhere.0''] (start sample))"
proof -
  have h: "map_of sample ''speaker.1'' = None"
    by (simp add: sample_def)
  show ?thesis
    using h fetch_missing [OF h, of "[''venue.1449'', ''nowhere.0'']"] by blast
qed

text \<open>
  Claim C9.  The display form depends on the kind.  A generic record shows the default
  representation.  An event whose title field is present shows a form that embeds the
  title (its \<^verbatim>\<open>repr\<close>); an event without a title field, whose serial number is \<open>n\<close>,
  shows the fallback form, which embeds the serial number.
\<close>

theorem display_by_kind:
  "(kind_of r = Generic \<longrightarrow> display dflt title r = Inr (dflt r)) \<and>
   (kind_of r = Event \<longrightarrow>
      (\<forall>t. map_of (attrs r) title = Some t \<longrightarrow>
           display dflt title r = Inr (''<Event '' @ py_repr t @ ''>'') \<and>
           embeds (display dflt title r) (py_repr t)) \<and>
      (map_of (attrs r) title = None \<longrightarrow>
         (\<forall>n. get_attr r ''serial'' = Inr n \<longrightarrow>
              display dflt title r = Inr (''<Event serial='' @ py_repr n @ ''>'') \<and>
              embeds (display dflt title r) (py_repr n))))"
proof -
  have mid: "sublist w (a @ w @ b)" for w a b :: string
    by (rule sublist_appendI)
  show ?thesis
    using mid [of _ "''<Event ''" "''>''"] mid [of _ "''<Event serial=''" "''>''"]
    by (simp add: display_def embeds_def)
qed

text \<open>
  The witness is \<^verbatim>\<open>test_event_repr\<close>: the fetched event \<^verbatim>\<open>event.33950\<close>, whose title
  field is \<^verbatim>\<open>name\<close>, and \<^verbatim>\<open>Event(serial=77, kind='show')\<close>, which has none; and a
  generic record.
\<close>

theorem display_by_kind_witness:
  "display (\<lambda>r. ''<Record>'') ''name'' (construct ''venue.1449'' [(''serial'', JInt 1449)] 0)
     = Inr ''<Record>'' \<and>
   display (\<lambda>r. ''<Record>'') ''name'' (construct ''event.33950''
       [(''serial'', JInt 33950), (''name'', JStr ''There *Will* Be Bugs'')] 1)
     = Inr (''<Event '' @ [CHR 0x27] @ ''There *Will* Be Bugs'' @ [CHR 0x27] @ ''>'') \<and>
   display (\<lambda>r. ''<Record>'') ''name'' \<lparr>obj_id = 2, kind_of = Event,
       attrs = [(''serial'', JInt 77), (''kind'', JStr ''show'')]\<rparr>
     = Inr ''<Event serial=77>''"
proof -
  have g: "kind_of (construct ''venue.1449'' [(''serial'', JInt 1449)] 0) = Generic"
    by (simp add: construct_def variant_of_def category_def)
  have e: "kind_of (construct ''event.33950''
       [(''serial'', JInt 33950), (''name'', JStr ''There *Will* Be Bugs'')] 1) = Event"
    by (simp add: construct_def variant_of_def category_def)
  have t: "map_of (attrs (construct ''event.33950''
       [(''serial'', JInt 33950), (''name'', JStr ''There *Will* Be Bugs'')] 1)) ''name''
       = Some (JStr ''There *Will* Be Bugs'')"
    by (simp add: construct_def)
  have r1: "repr_str ''There *Will* Be Bugs''
       = [CHR 0x27] @ ''There *Will* Be Bugs'' @ [CHR 0x27]"
    by code_simp
  have r2: "show_int 77 = ''77''"
    by code_simp
  have n: "map_of (attrs \<lparr>obj_id = 2, kind_of = Event,
       attrs = [(''serial'', JInt 77), (''kind'', JStr ''show'')]\<rparr>) ''name'' = None"
    by simp
  have s: "get_attr \<lparr>obj_id = 2, kind_of = Event,
       attrs = [(''serial'', JInt 77), (''kind'', JStr ''show'')]\<rparr> ''serial'' = Inr (JInt 77)"
    by (simp add: get_attr_def)
  show ?thesis
    using display_by_kind [of "construct ''venue.1449'' [(''serial'', JInt 1449)] 0"
        "\<lambda>r. ''<Record>''" "''name''"]
      display_by_kind [of "construct ''event.33950''
        [(''serial'', JInt 33950), (''name'', JStr ''There *Will* Be Bugs'')] 1"
        "\<lambda>r. ''<Record>''" "''name''"]
      display_by_kind [of "\<lparr>obj_id = 2, kind_of = Event,
        attrs = [(''serial'', JInt 77), (''kind'', JStr ''show'')]\<rparr>"
        "\<lambda>r. ''<Record>''" "''name''"]
      g e t n s
    by (simp add: r1 r2)
qed

section \<open>Properties of the vector class\<close>

subsection \<open>The numbers of the docstring\<close>

lemma float_of_int_0: "float_of_int 0 = Inr 0"
  by code_simp

lemma float_of_int_1: "float_of_int 1 = Inr 0x3FF0000000000000"
  by code_simp

lemma float_of_int_3: "float_of_int 3 = Inr 0x4008000000000000"
  by code_simp

lemma float_of_int_4: "float_of_int 4 = Inr 0x4010000000000000"
  by code_simp

subsection \<open>Equality and hashing\<close>

lemma float_eq_refl: "\<not> is_nan a \<Longrightarrow> float_eq a a"
  by (simp add: float_eq_def)

text \<open>
  Claim C10.  \<^verbatim>\<open>__eq__\<close> accepts any iterable: compared with a tuple or a list of
  two items, a vector is equal exactly when its components equal the items, one by one.
  So \<^verbatim>\<open>Vector2d(3, 4) == (3.0, 4.0)\<close> is true.
\<close>

theorem eq_any_iterable:
  "Vector2d_eq v (PyTuple [a, b])
     = Inr (py_eq (PyFloat (x_prop v)) a \<and> py_eq (PyFloat (y_prop v)) b) \<and>
   Vector2d_eq v (PyList [a, b])
     = Inr (py_eq (PyFloat (x_prop v)) a \<and> py_eq (PyFloat (y_prop v)) b) \<and>
   (\<exists>v34. fst (Vector2d_init (PyInt 3) (PyInt 4) n) = Inr v34 \<and>
      Vector2d_eq v34 (PyTuple [PyFloat \<lparr>ident = i, bits = 0x4008000000000000\<rparr>,
                                PyFloat \<lparr>ident = j, bits = 0x4010000000000000\<rparr>]) = Inr True)"
proof -
  have nn: "\<not> is_nan 0x4008000000000000" "\<not> is_nan 0x4010000000000000"
    by (simp_all add: is_nan_def expo_def)
  show ?thesis
    by (simp add: Vector2d_eq_def Vector2d_iter_def Vector2d_init_def float_of_int_3
        float_of_int_4 x_prop_def y_prop_def float_eq_def nn)
qed

lemma hash_float_eq:
  assumes "py_eq (PyFloat a) (PyFloat b)"
  shows "hash_float nh a = hash_float nh b"
proof (cases "a = b")
  case True
  then show ?thesis by simp
next
  case False
  with assms have fe: "float_eq (bits a) (bits b)" by simp
  then have nn: "\<not> is_nan (bits a)" "\<not> is_nan (bits b)"
    by (simp_all add: float_eq_def)
  from fe consider "bits a = bits b" | "is_zero (bits a)" "is_zero (bits b)"
    by (auto simp: float_eq_def)
  then show ?thesis
  proof cases
    case 1
    with nn show ?thesis by (simp add: hash_float_def)
  next
    case 2
    then show ?thesis
      by (simp add: hash_float_def is_zero_def is_nan_def is_inf_def mant_def)
  qed
qed

text \<open>
  Claim C3.  If \<^verbatim>\<open>v1 == v2\<close> for two vectors, then \<^verbatim>\<open>hash(v1) == hash(v2)\<close>,
  and the results of \<^verbatim>\<open>__hash__\<close> agree as well; \<^verbatim>\<open>__hash__\<close> returns the bitwise XOR
  of the hashes of the two components.
\<close>

theorem hash_consistent:
  assumes "Vector2d_eq v1 (PyVec v2) = Inr True"
  shows "py_hash nh v1 = py_hash nh v2 \<and>
         Vector2d_hash nh v1 = Vector2d_hash nh v2 \<and>
         Vector2d_hash nh v1 = hash_float nh (x_prop v1) XOR hash_float nh (y_prop v1)"
proof -
  from assms have "py_eq (PyFloat (x_prop v1)) (PyFloat (x_prop v2))"
    and "py_eq (PyFloat (y_prop v1)) (PyFloat (y_prop v2))"
    by (simp_all add: Vector2d_eq_def Vector2d_iter_def)
  then have "hash_float nh (x_prop v1) = hash_float nh (x_prop v2)"
    and "hash_float nh (y_prop v1) = hash_float nh (y_prop v2)"
    by (simp_all add: hash_float_eq)
  then show ?thesis
    by (simp add: py_hash_def Vector2d_hash_def)
qed

theorem hash_consistent_witness:
  "Vector2d_eq \<lparr>private_x = \<lparr>ident = 0, bits = 0\<rparr>,
                private_y = \<lparr>ident = 1, bits = 0x4008000000000000\<rparr>\<rparr>
     (PyVec \<lparr>private_x = \<lparr>ident = 2, bits = 0x8000000000000000\<rparr>,
             private_y = \<lparr>ident = 1, bits = 0x4008000000000000\<rparr>\<rparr>) = Inr True \<and>
   py_hash (\<lambda>i. 0) \<lparr>private_x = \<lparr>ident = 0, bits = 0\<rparr>,
                     private_y = \<lparr>ident = 1, bits = 0x4008000000000000\<rparr>\<rparr> = 3 \<and>
   py_hash (\<lambda>i. 0) \<lparr>private_x = \<lparr>ident = 2, bits = 0x8000000000000000\<rparr>,
                     private_y = \<lparr>ident = 1, bits = 0x4008000000000000\<rparr>\<rparr> = 3"
proof -
  let ?v1 = "\<lparr>private_x = \<lparr>ident = 0, bits = 0\<rparr>,
              private_y = \<lparr>ident = 1, bits = 0x4008000000000000\<rparr>\<rparr>"
  let ?v2 = "\<lparr>private_x = \<lparr>ident = 2, bits = 0x8000000000000000\<rparr>,
              private_y = \<lparr>ident = 1, bits = 0x4008000000000000\<rparr>\<rparr>"
  have h: "Vector2d_eq ?v1 (PyVec ?v2) = Inr True"
    by code_simp
  have v: "py_hash (\<lambda>i. 0) ?v1 = 3"
    by code_simp
  show ?thesis
    using h v hash_consistent [OF h, of "\<lambda>i. 0"] by simp
qed

lemma doctest_hash:
  "py_hash nan_hash \<lparr>private_x = \<lparr>ident = 0, bits = 0x4008000000000000\<rparr>,
                     private_y = \<lparr>ident = 1, bits = 0x4010000000000000\<rparr>\<rparr> = 7"
  "py_hash nan_hash \<lparr>private_x = \<lparr>ident = 0, bits = 0x4008CCCCCCCCCCCD\<rparr>,
                     private_y = \<lparr>ident = 1, bits = 0x4010CCCCCCCCCCCD\<rparr>\<rparr> = 384307168202284039"
  by code_simp+

subsection \<open>Bytes\<close>

lemma le_value_le_bytes: "le_value (le_bytes k v) = v mod 256 ^ k"
proof (induction k arbitrary: v)
  case 0
  then show ?case by simp
next
  case (Suc k)
  have "unat (of_nat (v mod 256) :: 8 word) = v mod 256"
    by (simp add: unat_of_nat)
  then show ?case
    using Suc.IH [of "v div 256"] by (simp add: mod_mult2_eq)
qed

lemma length_le_bytes [simp]: "length (le_bytes k v) = k"
  by (induction k arbitrary: v) simp_all

lemma bytes_double_double_bytes: "bytes_double bo (double_bytes bo w) = w"
proof -
  have "unat w < 256 ^ 8"
    using unsigned_less [of w, where 'a = nat] by simp
  then have "le_value (le_bytes 8 (unat w)) = unat w"
    by (simp add: le_value_le_bytes)
  then show ?thesis
    by (cases bo) (simp_all add: bytes_double_def double_bytes_def)
qed

lemma length_double_bytes [simp]: "length (double_bytes bo w) = 8"
  by (cases bo) (simp_all add: double_bytes_def)

lemma eight_items:
  assumes "length bs = 8"
  obtains b0 b1 b2 b3 b4 b5 b6 b7 where "bs = [b0, b1, b2, b3, b4, b5, b6, b7]"
  using assms by (auto simp: length_Suc_conv eval_nat_numeral)

lemma items_d_append:
  assumes "length bs = 8"
  shows "items_d bo (bs @ rest) = bytes_double bo bs # items_d bo rest"
proof -
  from assms obtain b0 b1 b2 b3 b4 b5 b6 b7 where "bs = [b0, b1, b2, b3, b4, b5, b6, b7]"
    by (rule eight_items)
  then show ?thesis by simp
qed

lemma items_d_two:
  "items_d bo (double_bytes bo a @ double_bytes bo b) = [a, b]"
proof -
  have "items_d bo (double_bytes bo b @ []) = [b]"
    by (subst items_d_append) (simp_all add: bytes_double_double_bytes)
  then show ?thesis
    by (simp add: items_d_append bytes_double_double_bytes)
qed

text \<open>
  Claim C2.  For a vector whose components are not NaN (every finite component, and the
  infinities too), \<^verbatim>\<open>bytes(v)\<close> is the eight bytes of \<open>x\<close> followed by the eight
  bytes of \<open>y\<close>, sixteen bytes with nothing before or between them, and
  \<^verbatim>\<open>Vector2d.frombytes(bytes(v)) == v\<close> is true, in either byte order.
\<close>

theorem bytes_roundtrip:
  assumes "\<not> is_nan (bits (x_prop v))" and "\<not> is_nan (bits (y_prop v))"
  shows "\<exists>octets v'.
           Vector2d_bytes bo v = Inr octets \<and>
           octets = double_bytes bo (bits (x_prop v)) @ double_bytes bo (bits (y_prop v)) \<and>
           length octets = 16 \<and>
           fst (frombytes bo octets n) = Inr v' \<and>
           Vector2d_eq v' (PyVec v) = Inr True"
proof -
  let ?octets = "double_bytes bo (bits (x_prop v)) @ double_bytes bo (bits (y_prop v))"
  let ?v' = "\<lparr>private_x = \<lparr>ident = n, bits = bits (x_prop v)\<rparr>,
              private_y = \<lparr>ident = Suc n, bits = bits (y_prop v)\<rparr>\<rparr>"
  have b: "Vector2d_bytes bo v = Inr ?octets"
    by (simp add: Vector2d_bytes_def Vector2d_iter_def array_bytes_def)
  have c: "cast_d bo ?octets = Inr [bits (x_prop v), bits (y_prop v)]"
    by (simp add: cast_d_def items_d_two)
  have f: "fst (frombytes bo ?octets n) = Inr ?v'"
    by (simp add: frombytes_def c Vector2d_init_def)
  have e: "Vector2d_eq ?v' (PyVec v) = Inr True"
    using assms
    by (simp add: Vector2d_eq_def Vector2d_iter_def x_prop_def y_prop_def float_eq_refl)
  from b f e show ?thesis by simp
qed

theorem bytes_roundtrip_witness:
  "\<not> is_nan (bits (x_prop \<lparr>private_x = \<lparr>ident = 0, bits = 0x4008000000000000\<rparr>,
                            private_y = \<lparr>ident = 1, bits = 0x4010000000000000\<rparr>\<rparr>)) \<and>
   \<not> is_nan (bits (y_prop \<lparr>private_x = \<lparr>ident = 0, bits = 0x4008000000000000\<rparr>,
                            private_y = \<lparr>ident = 1, bits = 0x4010000000000000\<rparr>\<rparr>)) \<and>
   Vector2d_bytes Little \<lparr>private_x = \<lparr>ident = 0, bits = 0x4008000000000000\<rparr>,
                          private_y = \<lparr>ident = 1, bits = 0x4010000000000000\<rparr>\<rparr>
     = Inr [0, 0, 0, 0, 0, 0, 0x08, 0x40, 0, 0, 0, 0, 0, 0, 0x10, 0x40] \<and>
   (\<exists>v'. fst (frombytes Little [0, 0, 0, 0, 0, 0, 0x08, 0x40, 0, 0, 0, 0, 0, 0, 0x10, 0x40] 2) = Inr v' \<and>
         Vector2d_eq v' (PyVec \<lparr>private_x = \<lparr>ident = 0, bits = 0x4008000000000000\<rparr>,
                                 private_y = \<lparr>ident = 1, bits = 0x4010000000000000\<rparr>\<rparr>) = Inr True)"
proof -
  let ?v = "\<lparr>private_x = \<lparr>ident = 0, bits = 0x4008000000000000\<rparr>,
             private_y = \<lparr>ident = 1, bits = 0x4010000000000000\<rparr>\<rparr>"
  have hx: "\<not> is_nan (bits (x_prop ?v))"
    by (simp add: x_prop_def is_nan_def expo_def)
  have hy: "\<not> is_nan (bits (y_prop ?v))"
    by (simp add: y_prop_def is_nan_def expo_def)
  have b: "Vector2d_bytes Little ?v
     = Inr [0, 0, 0, 0, 0, 0, 0x08, 0x40, 0, 0, 0, 0, 0, 0, 0x10, 0x40]"
    by code_simp
  show ?thesis
    using hx hy b bytes_roundtrip [OF hx hy, of Little 2] by auto
qed

subsection \<open>Read-only components\<close>

text \<open>
  Claim C4.  A vector constructed from two numbers holds \<^verbatim>\<open>float(x)\<close> and
  \<^verbatim>\<open>float(y)\<close>; after construction, assigning any value to \<^verbatim>\<open>x\<close> or to \<^verbatim>\<open>y\<close>
  raises AttributeError and the instance is as before: its dictionary still holds the two
  components.
\<close>

theorem components_read_only:
  assumes "Vector2d_init a b n = (Inr v, n')"
  shows "(\<exists>n1. py_float a n = (Inr (x_prop v), n1) \<and> py_float b n1 = (Inr (y_prop v), n')) \<and>
         py_setattr v ''x'' val
           = (Inl (AttributeError (''can'' @ [CHR 0x27] @ ''t set attribute'')), instance_dict v) \<and>
         py_setattr v ''y'' val
           = (Inl (AttributeError (''can'' @ [CHR 0x27] @ ''t set attribute'')), instance_dict v) \<and>
         instance_dict v = [(''_Vector2d__x'', PyFloat (x_prop v)), (''_Vector2d__y'', PyFloat (y_prop v))]"
proof -
  from assms have "\<exists>n1. py_float a n = (Inr (x_prop v), n1) \<and> py_float b n1 = (Inr (y_prop v), n')"
    by (auto simp: Vector2d_init_def x_prop_def y_prop_def split: prod.splits sum.splits)
  then show ?thesis
    by (simp add: py_setattr_def Vector2d_class_def instance_dict_def x_prop_def y_prop_def)
qed

theorem components_read_only_witness:
  "Vector2d_init (PyInt 3) (PyFloat \<lparr>ident = 0, bits = 0x4010000000000000\<rparr>) 1
     = (Inr \<lparr>private_x = \<lparr>ident = 1, bits = 0x4008000000000000\<rparr>,
              private_y = \<lparr>ident = 0, bits = 0x4010000000000000\<rparr>\<rparr>, 2) \<and>
   fst (py_setattr \<lparr>private_x = \<lparr>ident = 1, bits = 0x4008000000000000\<rparr>,
                     private_y = \<lparr>ident = 0, bits = 0x4010000000000000\<rparr>\<rparr> ''x'' (PyInt 123))
     = Inl (AttributeError (''can'' @ [CHR 0x27] @ ''t set attribute''))"
proof -
  have h: "Vector2d_init (PyInt 3) (PyFloat \<lparr>ident = 0, bits = 0x4010000000000000\<rparr>) 1
     = (Inr \<lparr>private_x = \<lparr>ident = 1, bits = 0x4008000000000000\<rparr>,
              private_y = \<lparr>ident = 0, bits = 0x4010000000000000\<rparr>\<rparr>, 2)"
    by (simp add: Vector2d_init_def float_of_int_3)
  show ?thesis
    using h components_read_only [OF h, of "PyInt 123"] by simp
qed

subsection \<open>Binary digits and the integer square root\<close>

lemma bit_length_zero [simp]: "bit_length 0 = 0"
  by (simp add: bit_length.simps)

lemma bit_length_eq:
  "2 ^ k \<le> n \<Longrightarrow> n < 2 ^ Suc k \<Longrightarrow> bit_length n = Suc k"
proof (induction k arbitrary: n)
  case 0
  then have "n = 1" by simp
  then show ?case by (simp add: bit_length.simps)
next
  case (Suc k)
  from Suc.prems have "2 ^ k \<le> n div 2" "n div 2 < 2 ^ Suc k" "n \<noteq> 0"
    by auto
  with Suc.IH [of "n div 2"] show ?case
    by (subst bit_length.simps) simp
qed

lemma bit_length_upper: "n < 2 ^ bit_length n"
proof (induction n rule: bit_length.induct)
  case (1 n)
  show ?case
  proof (cases "n = 0")
    case True
    then show ?thesis by simp
  next
    case False
    with 1 have "n div 2 < 2 ^ bit_length (n div 2)" by simp
    then have "n < 2 * 2 ^ bit_length (n div 2)" by linarith
    with False show ?thesis by (subst bit_length.simps) simp
  qed
qed

lemma bit_length_lower: "n \<noteq> 0 \<Longrightarrow> 2 ^ (bit_length n - 1) \<le> n"
proof (induction n rule: bit_length.induct)
  case (1 n)
  show ?case
  proof (cases "n div 2 = 0")
    case True
    then have "n < 2" by (simp add: div_eq_0_iff)
    with 1 have "n = 1" by linarith
    then show ?thesis by (simp add: bit_length.simps)
  next
    case False
    with 1 have "2 ^ (bit_length (n div 2) - 1) \<le> n div 2" by simp
    moreover from False have "bit_length (n div 2) \<noteq> 0"
      by (subst bit_length.simps) simp
    ultimately have "2 ^ bit_length (n div 2) \<le> 2 * (n div 2)"
      by (cases "bit_length (n div 2)") simp_all
    then have "2 ^ bit_length (n div 2) \<le> n" by linarith
    with 1 show ?thesis by (subst bit_length.simps) simp
  qed
qed

lemma bit_length_le: "n < 2 ^ k \<Longrightarrow> bit_length n \<le> k"
proof (induction k arbitrary: n)
  case 0
  then show ?case by simp
next
  case (Suc k)
  then have "n div 2 < 2 ^ k" by auto
  with Suc.IH [of "n div 2"] show ?case
    by (subst bit_length.simps) simp
qed

lemma bit_length_mult_pow2: "m \<noteq> 0 \<Longrightarrow> bit_length (m * 2 ^ j) = bit_length m + j"
proof (induction j)
  case 0
  then show ?case by simp
next
  case (Suc j)
  have "bit_length (m * 2 ^ Suc j) = Suc (bit_length ((m * 2 ^ Suc j) div 2))"
    using Suc.prems by (subst bit_length.simps) simp
  also have "(m * 2 ^ Suc j) div 2 = m * 2 ^ j" by simp
  finally show ?case using Suc by simp
qed

lemma sqrt_bits_correct:
  "r * r \<le> n \<Longrightarrow> n < (r + 2 ^ k) * (r + 2 ^ k) \<Longrightarrow>
   sqrt_bits k r n * sqrt_bits k r n \<le> n \<and> n < Suc (sqrt_bits k r n) * Suc (sqrt_bits k r n)"
proof (induction k arbitrary: r)
  case 0
  then show ?case by simp
next
  case (Suc k)
  show ?case
  proof (cases "(r + 2 ^ k) * (r + 2 ^ k) \<le> n")
    case True
    from Suc.prems have "n < (r + 2 ^ k + 2 ^ k) * (r + 2 ^ k + 2 ^ k)"
      by (simp add: algebra_simps)
    with True Suc.IH [of "r + 2 ^ k"] show ?thesis by simp
  next
    case False
    with Suc.prems Suc.IH [of r] show ?thesis by simp
  qed
qed

lemma isqrt_correct: "isqrt n * isqrt n \<le> n \<and> n < Suc (isqrt n) * Suc (isqrt n)"
proof -
  let ?k = "Suc (bit_length n) div 2"
  have "n < 2 ^ bit_length n" by (rule bit_length_upper)
  also have "\<dots> \<le> (2::nat) ^ (2 * ?k)" by (rule power_increasing) simp_all
  also have "\<dots> = (0 + 2 ^ ?k) * (0 + 2 ^ ?k)"
    by (simp add: mult_2 power_add)
  finally have "n < (0 + 2 ^ ?k) * (0 + 2 ^ ?k)" .
  with sqrt_bits_correct [of 0 n ?k] show ?thesis by (simp add: isqrt_def)
qed

lemma isqrt_unique:
  assumes "r * r \<le> n" and "n < Suc r * Suc r"
  shows "isqrt n = r"
proof (rule ccontr)
  assume ne: "isqrt n \<noteq> r"
  from isqrt_correct [of n] have a: "isqrt n * isqrt n \<le> n" and b: "n < Suc (isqrt n) * Suc (isqrt n)"
    by simp_all
  from ne consider "isqrt n < r" | "r < isqrt n" by linarith
  then show False
  proof cases
    case 1
    then have "Suc (isqrt n) * Suc (isqrt n) \<le> r * r"
      by (intro mult_le_mono) simp_all
    with b assms show False by linarith
  next
    case 2
    then have "Suc r * Suc r \<le> isqrt n * isqrt n"
      by (intro mult_le_mono) simp_all
    with a assms show False by linarith
  qed
qed

lemma isqrt_lower:
  assumes "r * r \<le> n"
  shows "r \<le> isqrt n"
proof (rule ccontr)
  assume "\<not> r \<le> isqrt n"
  then have "Suc (isqrt n) \<le> r" by simp
  then have "Suc (isqrt n) * Suc (isqrt n) \<le> r * r" by (intro mult_le_mono)
  with assms isqrt_correct [of n] show False by linarith
qed

subsection \<open>The fields of a double\<close>

text \<open>The fields of a double and its magnitude.\<close>

lemma fract_less: "fract w < 2 ^ 52"
  by (simp add: fract_def)

lemma expo_less: "expo w < 2 ^ 11"
  by (simp add: expo_def)

lemma exp2_lower: "- 1074 \<le> exp2 w"
  by (simp add: exp2_def)

lemma mant_zero_iff: "mant w = 0 \<longleftrightarrow> is_zero w"
  by (simp add: mant_def is_zero_def)

lemma mant_less: "mant w < 2 ^ 53"
  using fract_less [of w] by (simp add: mant_def)

lemma mant_bit_length:
  "bit_length (mant w) = 53 \<or> (expo w = 0 \<and> bit_length (mant w) \<le> 52)"
proof (cases "expo w = 0")
  case True
  then have "mant w < 2 ^ 52" using fract_less [of w] by (simp add: mant_def)
  then have "bit_length (mant w) \<le> 52" by (rule bit_length_le)
  with True show ?thesis by simp
next
  case False
  then have "2 ^ 52 \<le> mant w" "mant w < 2 ^ Suc 52"
    using fract_less [of w] by (simp_all add: mant_def)
  then have "bit_length (mant w) = Suc 52" by (rule bit_length_eq)
  then show ?thesis by simp
qed

lemma unat_fields:
  "unat w = (if sign_of w then 2 ^ 63 else 0) + expo w * 2 ^ 52 + fract w"
proof -
  have lt: "unat w < 2 ^ 64"
    using unsigned_less [of w, where 'a = nat] by simp
  have a: "unat w = (unat w div 2 ^ 52) * 2 ^ 52 + fract w"
    by (simp add: fract_def)
  have b: "unat w div 2 ^ 52 = (unat w div 2 ^ 52 div 2 ^ 11) * 2 ^ 11 + expo w"
    by (simp add: expo_def)
  have c: "unat w div 2 ^ 52 div 2 ^ 11 = unat w div 2 ^ 63"
    by (simp add: div_mult2_eq [symmetric])
  have d: "unat w div 2 ^ 63 = (if sign_of w then 1 else 0)"
  proof (cases "sign_of w")
    case True
    then have "2 ^ 63 \<le> unat w" by (simp add: sign_of_def)
    with lt have "unat w div 2 ^ 63 = 1"
      by (intro div_nat_eqI) simp_all
    with True show ?thesis by simp
  next
    case False
    then have "unat w < 2 ^ 63" by (simp add: sign_of_def)
    with False show ?thesis by simp
  qed
  from a b c d show ?thesis by (simp split: if_splits)
qed

lemma unat_float_abs: "unat (float_abs w) = expo w * 2 ^ 52 + fract w"
proof -
  have "unat w mod 2 ^ 63 < 2 ^ 64"
    by (rule less_trans [OF mod_less_divisor]) simp_all
  then have "unat (float_abs w) = unat w mod 2 ^ 63"
    by (simp add: float_abs_def unat_of_nat take_bit_nat_eq_self)
  also have "\<dots> = expo w * 2 ^ 52 + fract w"
  proof -
    have "expo w * 2 ^ 52 + fract w < 2 ^ 63"
      using fract_less [of w] expo_less [of w]
      by (simp add: less_mult_imp_div_less)
    then have "(2 ^ 63 + (expo w * 2 ^ 52 + fract w)) mod 2 ^ 63 = expo w * 2 ^ 52 + fract w"
      and "(expo w * 2 ^ 52 + fract w) mod 2 ^ 63 = expo w * 2 ^ 52 + fract w"
      by simp_all
    then show ?thesis
      by (subst unat_fields) (simp add: add.assoc split: if_splits)
  qed
  finally show ?thesis .
qed

lemma of_nat_fields: "of_nat (expo w * 2 ^ 52 + fract w) = float_abs w"
proof -
  have "of_nat (unat (float_abs w)) = float_abs w" by simp
  then show ?thesis by (simp add: unat_float_abs)
qed

lemma pack_fields:
  assumes "is_finite w"
  shows "nat (exp2 w + 1074) * 2 ^ 52 + mant w = expo w * 2 ^ 52 + fract w"
    and "nat (exp2 w + 1074) * 2 ^ 52 + mant w < 2047 * 2 ^ 52"
proof -
  show eq: "nat (exp2 w + 1074) * 2 ^ 52 + mant w = expo w * 2 ^ 52 + fract w"
  proof (cases "expo w = 0")
    case True
    then show ?thesis by (simp add: exp2_def mant_def)
  next
    case False
    then have "nat (exp2 w + 1074) = expo w - 1"
      by (simp add: exp2_def max_def) linarith
    moreover from False have "(expo w - 1) * 2 ^ 52 + 2 ^ 52 = expo w * (2 ^ 52 :: nat)"
      by (cases "expo w") simp_all
    ultimately show ?thesis
      using False by (simp add: mant_def)
  qed
  from assms have "expo w \<le> 2046" by (simp add: is_finite_def)
  then have "expo w * 2 ^ 52 \<le> 2046 * 2 ^ 52" by simp
  with fract_less [of w] show "nat (exp2 w + 1074) * 2 ^ 52 + mant w < 2047 * 2 ^ 52"
    unfolding eq by simp
qed

lemma float_abs_pos: "\<not> sign_of w \<Longrightarrow> float_abs w = w"
proof -
  assume "\<not> sign_of w"
  then have "unat (float_abs w) = unat w"
    by (simp add: unat_float_abs unat_fields [of w])
  then show ?thesis by (rule word_unat_eq_iff [THEN iffD2])
qed

lemma float_neg_abs: "sign_of w \<Longrightarrow> float_neg (float_abs w) = w"
proof -
  assume s: "sign_of w"
  have lt: "unat w < 2 ^ 64"
    using unsigned_less [of w, where 'a = nat] by simp
  from s have "unat (float_abs w) + 2 ^ 63 = unat w"
    by (simp add: unat_float_abs unat_fields [of w])
  then have "float_neg (float_abs w) = of_nat (unat w mod 2 ^ 64)"
    by (simp add: float_neg_def)
  also have "\<dots> = of_nat (unat w)" using lt by simp
  also have "\<dots> = w" by simp
  finally show ?thesis .
qed

lemma is_zero_of_nat:
  assumes "b < 2047 * 2 ^ 52"
  shows "is_zero (of_nat b :: double) \<longleftrightarrow> b = 0"
proof -
  from assms have "b < 2 ^ 64" by simp
  then have u: "unat (of_nat b :: double) = b"
    by (simp add: unat_of_nat take_bit_nat_eq_self)
  from assms have "b div 2 ^ 52 < 2 ^ 11"
    by (simp add: less_mult_imp_div_less)
  then have "is_zero (of_nat b :: double) \<longleftrightarrow> b div 2 ^ 52 = 0 \<and> b mod 2 ^ 52 = 0"
    by (simp add: is_zero_def expo_def fract_def u)
  also have "\<dots> \<longleftrightarrow> b = 0"
    by (metis div_mult_mod_eq mult_zero_right add_0 div_0 mod_0)
  finally show ?thesis .
qed

lemma inf_not_zero: "\<not> is_zero 0x7FF0000000000000" "\<not> is_zero 0x7FF8000000000000"
  by (simp_all add: is_zero_def expo_def)

lemma valof_zero_iff: "valof w = 0 \<longleftrightarrow> is_zero w"
  by (simp add: valof_def mant_zero_iff [symmetric])

lemma valof_1: "valof 0x3FF0000000000000 = 1"
proof -
  have "expo 0x3FF0000000000000 = 1023" "fract 0x3FF0000000000000 = 0"
    by (simp_all add: expo_def fract_def)
  moreover have "\<not> sign_of 0x3FF0000000000000"
    by (simp add: sign_of_def)
  ultimately show ?thesis
    by (simp add: valof_def mant_def exp2_def power_int_minus)
qed

lemma valof_5: "valof 0x4014000000000000 = 5"
proof -
  have "expo 0x4014000000000000 = 1025" "fract 0x4014000000000000 = 2 ^ 50"
    by (simp_all add: expo_def fract_def)
  moreover have "\<not> sign_of 0x4014000000000000"
    by (simp add: sign_of_def)
  ultimately show ?thesis
    by (simp add: valof_def mant_def exp2_def power_int_minus)
qed

subsection \<open>Magnitude and truth value\<close>

lemma round_pos_nonzero:
  assumes m: "2 ^ 64 \<le> m" and e: "- 1138 \<le> e"
  shows "\<not> is_zero (round_pos m e sticky)"
proof -
  define qe where "qe = max (int (bit_length m) - 1 + e - 52) (- 1074)"
  define k where "k = nat (qe - e)"
  define q' where "q' = (if qe \<le> e then m * 2 ^ nat (e - qe)
      else if 2 * (m mod 2 ^ k) > 2 ^ k \<or> (2 * (m mod 2 ^ k) = 2 ^ k \<and> (sticky \<or> odd (m div 2 ^ k)))
      then Suc (m div 2 ^ k) else m div 2 ^ k)"
  define b where "b = nat (qe + 1074) * 2 ^ 52 + q'"
  have rp: "round_pos m e sticky =
      (if m = 0 then 0 else if 2047 * 2 ^ 52 \<le> b then 0x7FF0000000000000 else of_nat b)"
    unfolding round_pos_def Let_def b_def q'_def k_def qe_def by (rule refl)
  from m have m0: "m \<noteq> 0" by auto
  have "b \<noteq> 0"
  proof (cases "qe = - 1074")
    case False
    then have "0 < nat (qe + 1074)" by (simp add: qe_def)
    then show ?thesis by (simp add: b_def)
  next
    case True
    with e have "k \<le> 64" by (simp add: k_def)
    then have "(2::nat) ^ k \<le> 2 ^ 64" by (intro power_increasing) simp_all
    with m have "2 ^ k \<le> m" by linarith
    then have "1 \<le> m div 2 ^ k"
      by (simp add: div_greater_zero_iff Suc_le_eq)
    moreover have "0 < m * 2 ^ nat (e - qe)" using m0 by simp
    ultimately have "0 < q'" by (simp add: q'_def)
    then show ?thesis by (simp add: b_def)
  qed
  then show ?thesis
    using m0 by (simp add: rp inf_not_zero is_zero_of_nat)
qed

lemma hypot_zero_iff: "is_zero (hypot a b) \<longleftrightarrow> is_zero a \<and> is_zero b"
proof (cases "is_inf a \<or> is_inf b \<or> is_nan a \<or> is_nan b")
  case True
  then have "\<not> is_zero (hypot a b)"
    by (auto simp: hypot_def inf_not_zero)
  moreover from True have "\<not> (is_zero a \<and> is_zero b)"
    by (auto simp: is_zero_def is_inf_def is_nan_def)
  ultimately show ?thesis by simp
next
  case False
  define e where "e = min (exp2 a) (exp2 b)"
  define ma where "ma = mant a * 2 ^ nat (exp2 a - e)"
  define mb where "mb = mant b * 2 ^ nat (exp2 b - e)"
  define s where "s = (ma * ma + mb * mb) * 2 ^ 128"
  from False have h: "hypot a b = round_pos (isqrt s) (e - 64) (isqrt s * isqrt s \<noteq> s)"
    by (simp add: hypot_def Let_def e_def ma_def mb_def s_def)
  show ?thesis
  proof (cases "is_zero a \<and> is_zero b")
    case True
    then have "s = 0" by (simp add: s_def ma_def mb_def mant_zero_iff)
    moreover have "isqrt 0 = 0" by (rule isqrt_unique) simp_all
    ultimately have "hypot a b = 0" by (simp add: h round_pos_def)
    moreover have "is_zero (0 :: double)" by (simp add: is_zero_def expo_def fract_def)
    ultimately show ?thesis using True by simp
  next
    case nz: False
    then have "0 < ma \<or> 0 < mb"
      by (auto simp: ma_def mb_def mant_zero_iff [symmetric])
    then have "1 \<le> ma * ma + mb * mb"
      by (auto simp: Suc_le_eq)
    then have "2 ^ 64 * 2 ^ 64 \<le> s"
      by (simp add: s_def)
    then have "2 ^ 64 \<le> isqrt s" by (rule isqrt_lower)
    moreover have "- 1138 \<le> e - 64"
      using exp2_lower [of a] exp2_lower [of b] by (simp add: e_def)
    ultimately have "\<not> is_zero (hypot a b)"
      unfolding h by (rule round_pos_nonzero)
    with nz show ?thesis by simp
  qed
qed

lemma hypot_3_4: "hypot 0x4008000000000000 0x4010000000000000 = 0x4014000000000000"
proof -
  have x: "expo 0x4008000000000000 = 1024" "fract 0x4008000000000000 = 2 ^ 51"
    by (simp_all add: expo_def fract_def)
  have y: "expo 0x4010000000000000 = 1025" "fract 0x4010000000000000 = 0"
    by (simp_all add: expo_def fract_def)
  have r: "isqrt (25 * 2 ^ 102 * 2 ^ 128) = 5 * 2 ^ 115"
    by (rule isqrt_unique) simp_all
  have l: "bit_length (5 * 2 ^ 115) = Suc 117"
    by (rule bit_length_eq) simp_all
  show ?thesis
    using r l
    by (simp add: hypot_def is_inf_def is_nan_def mant_def exp2_def x y Let_def round_pos_def)
qed

text \<open>
  Claim C5.  For every vector, \<^verbatim>\<open>bool(v)\<close> is false exactly when the magnitude
  \<^verbatim>\<open>abs(v)\<close> is zero, which is exactly when both components are zero and, for finite
  components, exactly when the Euclidean norm of the two components is zero.
  \<^verbatim>\<open>Vector2d(3, 4)\<close> has magnitude 5.0 and is true; \<^verbatim>\<open>Vector2d(0, 0)\<close> is false.
\<close>

theorem bool_iff_magnitude_zero:
  "(Vector2d_bool v = False \<longleftrightarrow> is_zero (Vector2d_abs v)) \<and>
   (Vector2d_bool v = False \<longleftrightarrow> is_zero (bits (x_prop v)) \<and> is_zero (bits (y_prop v))) \<and>
   (is_finite (bits (x_prop v)) \<and> is_finite (bits (y_prop v)) \<longrightarrow>
      (Vector2d_bool v = False \<longleftrightarrow>
         sqrt ((valof (bits (x_prop v)))\<^sup>2 + (valof (bits (y_prop v)))\<^sup>2) = 0)) \<and>
   (\<exists>v34. fst (Vector2d_init (PyInt 3) (PyInt 4) n) = Inr v34 \<and>
      Vector2d_abs v34 = 0x4014000000000000 \<and> valof (Vector2d_abs v34) = 5 \<and>
      Vector2d_bool v34 = True) \<and>
   (\<exists>v00. fst (Vector2d_init (PyInt 0) (PyInt 0) n) = Inr v00 \<and> Vector2d_bool v00 = False)"
proof -
  have a: "Vector2d_bool v = False \<longleftrightarrow> is_zero (Vector2d_abs v)"
    by (simp add: Vector2d_bool_def float_bool_def)
  have b: "Vector2d_bool v = False \<longleftrightarrow> is_zero (bits (x_prop v)) \<and> is_zero (bits (y_prop v))"
    by (simp add: Vector2d_bool_def float_bool_def Vector2d_abs_def hypot_zero_iff)
  have c: "Vector2d_bool v = False \<longleftrightarrow>
      sqrt ((valof (bits (x_prop v)))\<^sup>2 + (valof (bits (y_prop v)))\<^sup>2) = 0"
    using b by (simp add: valof_zero_iff)
  have d: "\<exists>v34. fst (Vector2d_init (PyInt 3) (PyInt 4) n) = Inr v34 \<and>
      Vector2d_abs v34 = 0x4014000000000000 \<and> valof (Vector2d_abs v34) = 5 \<and>
      Vector2d_bool v34 = True"
    by (simp add: Vector2d_init_def float_of_int_3 float_of_int_4 Vector2d_abs_def
        x_prop_def y_prop_def hypot_3_4 valof_5 Vector2d_bool_def float_bool_def is_zero_def expo_def)
  have z: "is_zero (0 :: double)"
    by (simp add: is_zero_def expo_def fract_def)
  have e: "\<exists>v00. fst (Vector2d_init (PyInt 0) (PyInt 0) n) = Inr v00 \<and> Vector2d_bool v00 = False"
    by (simp add: Vector2d_init_def float_of_int_0 Vector2d_bool_def float_bool_def
        Vector2d_abs_def hypot_zero_iff x_prop_def y_prop_def z)
  from a b c d e show ?thesis by blast
qed

theorem bool_iff_magnitude_zero_witness:
  "is_finite (bits (x_prop \<lparr>private_x = \<lparr>ident = 0, bits = 0x8000000000000000\<rparr>,
                            private_y = \<lparr>ident = 1, bits = 0\<rparr>\<rparr>)) \<and>
   is_finite (bits (y_prop \<lparr>private_x = \<lparr>ident = 0, bits = 0x8000000000000000\<rparr>,
                            private_y = \<lparr>ident = 1, bits = 0\<rparr>\<rparr>)) \<and>
   Vector2d_bool \<lparr>private_x = \<lparr>ident = 0, bits = 0x8000000000000000\<rparr>,
                  private_y = \<lparr>ident = 1, bits = 0\<rparr>\<rparr> = False \<and>
   sqrt ((valof (bits (x_prop \<lparr>private_x = \<lparr>ident = 0, bits = 0x8000000000000000\<rparr>,
                              private_y = \<lparr>ident = 1, bits = 0\<rparr>\<rparr>)))\<^sup>2 +
         (valof (bits (y_prop \<lparr>private_x = \<lparr>ident = 0, bits = 0x8000000000000000\<rparr>,
                              private_y = \<lparr>ident = 1, bits = 0\<rparr>\<rparr>)))\<^sup>2) = 0"
proof -
  let ?v = "\<lparr>private_x = \<lparr>ident = 0, bits = 0x8000000000000000\<rparr>,
             private_y = \<lparr>ident = 1, bits = 0\<rparr>\<rparr>"
  have fx: "is_finite (bits (x_prop ?v))"
    by (simp add: x_prop_def is_finite_def expo_def)
  have fy: "is_finite (bits (y_prop ?v))"
    by (simp add: y_prop_def is_finite_def expo_def)
  have zx: "is_zero (bits (x_prop ?v))"
    by (simp add: x_prop_def is_zero_def expo_def fract_def)
  have zy: "is_zero (bits (y_prop ?v))"
    by (simp add: y_prop_def is_zero_def expo_def fract_def)
  show ?thesis
    using bool_iff_magnitude_zero [of ?v 0] fx fy zx zy by blast
qed

subsection \<open>Rounding a number that is a double\<close>

lemma round_pos_quantum:
  assumes fin: "is_finite w" and nz: "M \<noteq> 0"
    and bl: "int (bit_length M) + E = int (bit_length (mant w)) + exp2 w"
  shows "max (int (bit_length M) - 1 + E - 52) (- 1074) = exp2 w"
proof -
  have "int (bit_length M) - 1 + E - 52 = int (bit_length (mant w)) + exp2 w - 53"
    using bl by simp
  moreover from mant_bit_length [of w]
  have "max (int (bit_length (mant w)) + exp2 w - 53) (- 1074) = exp2 w"
    by (auto simp: exp2_def)
  ultimately show ?thesis by simp
qed

text \<open>A number that is a double is rounded to that double.\<close>

lemma round_pos_scaled_up:
  assumes fin: "is_finite w" and nz: "mant w \<noteq> 0"
  shows "round_pos (mant w * 2 ^ j) (exp2 w - int j) False = float_abs w"
proof -
  let ?M = "mant w * 2 ^ j"
  have bl: "int (bit_length ?M) + (exp2 w - int j) = int (bit_length (mant w)) + exp2 w"
    using nz by (simp add: bit_length_mult_pow2)
  have qe: "max (int (bit_length ?M) - 1 + (exp2 w - int j) - 52) (- 1074) = exp2 w"
    using fin _ bl by (rule round_pos_quantum) (use nz in simp)
  have k: "nat (exp2 w - (exp2 w - int j)) = j" by simp
  have "round_pos ?M (exp2 w - int j) False =
      (if 2047 * 2 ^ 52 \<le> nat (exp2 w + 1074) * 2 ^ 52 + mant w then 0x7FF0000000000000
       else of_nat (nat (exp2 w + 1074) * 2 ^ 52 + mant w))"
    unfolding round_pos_def Let_def qe k using nz by (cases "j = 0") simp_all
  then show ?thesis
    using pack_fields [OF fin] of_nat_fields [of w] by simp
qed

lemma round_pos_scaled_down:
  assumes fin: "is_finite w" and nz: "M \<noteq> 0" and m: "mant w = M * 2 ^ c"
  shows "round_pos M (exp2 w + int c) False = float_abs w"
proof -
  have bl: "int (bit_length M) + (exp2 w + int c) = int (bit_length (mant w)) + exp2 w"
    using nz by (simp add: m bit_length_mult_pow2)
  have qe: "max (int (bit_length M) - 1 + (exp2 w + int c) - 52) (- 1074) = exp2 w"
    using fin nz bl by (rule round_pos_quantum)
  have "round_pos M (exp2 w + int c) False =
      (if 2047 * 2 ^ 52 \<le> nat (exp2 w + 1074) * 2 ^ 52 + mant w then 0x7FF0000000000000
       else of_nat (nat (exp2 w + 1074) * 2 ^ 52 + mant w))"
    unfolding round_pos_def Let_def qe using nz by (simp add: m)
  then show ?thesis
    using pack_fields [OF fin] of_nat_fields [of w] by simp
qed

lemma round_dec_exact:
  assumes fin: "is_finite w" and nz: "mant w \<noteq> 0"
    and sv: "same_value d k (mant w) (exp2 w)"
  shows "round_dec d k = float_abs w"
proof (cases "0 \<le> k")
  case k: True
  show ?thesis
  proof (cases "0 \<le> exp2 w")
    case True
    with k sv have "d * 10 ^ nat k = mant w * 2 ^ nat (exp2 w)"
      by (simp add: same_value_def)
    moreover have "round_pos (mant w * 2 ^ nat (exp2 w)) (exp2 w - int (nat (exp2 w))) False = float_abs w"
      using fin nz by (rule round_pos_scaled_up)
    ultimately show ?thesis
      using k True by (simp add: round_dec_def)
  next
    case False
    with k sv have m: "mant w = d * 10 ^ nat k * 2 ^ nat (- exp2 w)"
      by (simp add: same_value_def)
    with nz have "d * 10 ^ nat k \<noteq> 0" by auto
    with fin have "round_pos (d * 10 ^ nat k) (exp2 w + int (nat (- exp2 w))) False = float_abs w"
      using m by (rule round_pos_scaled_down)
    then show ?thesis
      using k False by (simp add: round_dec_def)
  qed
next
  case k: False
  define den :: nat where "den = 10 ^ nat (- k)"
  define s where "s = bit_length den + 54"
  have den0: "den \<noteq> 0" by (simp add: den_def)
  have rd: "round_dec d k = round_pos (d * 2 ^ s div den) (- int s) (d * 2 ^ s mod den \<noteq> 0)"
    using k by (simp add: round_dec_def Let_def den_def s_def)
  have "\<exists>j. exp2 w + int s = int j \<and> d * 2 ^ s = mant w * 2 ^ j * den"
  proof (cases "0 \<le> exp2 w")
    case True
    with sv k have "d = mant w * 2 ^ nat (exp2 w) * den"
      by (simp add: same_value_def den_def)
    then have "d * 2 ^ s = mant w * 2 ^ (nat (exp2 w) + s) * den"
      by (simp add: power_add)
    moreover have "exp2 w + int s = int (nat (exp2 w) + s)"
      using True by simp
    ultimately show ?thesis by blast
  next
    case False
    define c where "c = nat (- exp2 w)"
    from False sv k have eq: "d * 2 ^ c = mant w * den"
      by (simp add: same_value_def den_def c_def)
    with nz den0 have d0: "d \<noteq> 0" by (cases "d = 0") auto
    then have "2 ^ c \<le> d * 2 ^ c" by simp
    also have "\<dots> = mant w * den" by (rule eq)
    also have "\<dots> < 2 ^ 53 * 2 ^ bit_length den"
      using mant_less [of w] bit_length_upper [of den]
      by (intro mult_strict_mono) simp_all
    also have "\<dots> = 2 ^ (53 + bit_length den)" by (simp add: power_add)
    finally have "c < 53 + bit_length den" by simp
    then have cs: "c \<le> s" by (simp add: s_def)
    then have "d * 2 ^ s = d * 2 ^ c * 2 ^ (s - c)"
      by (simp add: power_add [symmetric])
    also have "\<dots> = mant w * 2 ^ (s - c) * den"
      by (simp add: eq)
    finally have "d * 2 ^ s = mant w * 2 ^ (s - c) * den" .
    moreover have "exp2 w + int s = int (s - c)"
      using cs False by (simp add: c_def)
    ultimately show ?thesis by blast
  qed
  then obtain j where j: "exp2 w + int s = int j" and n: "d * 2 ^ s = mant w * 2 ^ j * den"
    by blast
  from n den0 have "d * 2 ^ s div den = mant w * 2 ^ j" "d * 2 ^ s mod den = 0"
    by simp_all
  moreover from j have "- int s = exp2 w - int j" by simp
  ultimately have "round_dec d k = round_pos (mant w * 2 ^ j) (exp2 w - int j) False"
    by (simp add: rd)
  also have "\<dots> = float_abs w"
    using fin nz by (rule round_pos_scaled_up)
  finally show ?thesis .
qed

lemma dec_exact_same: "dec_exact m e = (d, k) \<Longrightarrow> same_value d k m e"
  by (auto simp: dec_exact_def same_value_def power_mult_distrib [symmetric] split: if_splits)

lemma strip_zeros_same:
  "same_value d k m e \<Longrightarrow> strip_zeros d k = (d', k') \<Longrightarrow> same_value d' k' m e"
proof (induction d k rule: strip_zeros.induct)
  case (1 d k)
  show ?case
  proof (cases "d \<noteq> 0 \<and> d mod 10 = 0")
    case False
    with "1.prems" show ?thesis
      by (subst (asm) strip_zeros.simps) auto
  next
    case True
    then obtain d2 where d2: "d = 10 * d2" by (auto simp: mod_eq_0_iff_dvd)
    from "1.prems"(1) have sv: "10 * d2 * 10 ^ nat k * 2 ^ nat (- exp2') = m * 2 ^ nat e * 10 ^ nat (- k)"
      if "exp2' = e" for exp2'
      using that by (simp add: same_value_def d2)
    have "same_value (d div 10) (k + 1) m e"
    proof (cases "0 \<le> k")
      case True
      then have "nat (k + 1) = Suc (nat k)" "nat (- (k + 1)) = 0" "nat (- k) = 0" by simp_all
      with sv [OF refl] show ?thesis by (simp add: same_value_def d2 mult_ac)
    next
      case False
      then have "nat (k + 1) = 0" "nat k = 0" "nat (- k) = Suc (nat (- (k + 1)))" by simp_all
      with sv [OF refl] show ?thesis by (simp add: same_value_def d2 mult_ac)
    qed
    moreover from True "1.prems"(2) have "strip_zeros (d div 10) (k + 1) = (d', k')"
      by (subst (asm) strip_zeros.simps) simp
    ultimately show ?thesis by (rule "1.IH" [OF True])
  qed
qed

lemma strip_zeros_normal:
  "strip_zeros d k = (d', k') \<Longrightarrow> (d' = 0 \<longleftrightarrow> d = 0) \<and> (d' \<noteq> 0 \<longrightarrow> d' mod 10 \<noteq> 0)"
proof (induction d k rule: strip_zeros.induct)
  case (1 d k)
  show ?case
  proof (cases "d \<noteq> 0 \<and> d mod 10 = 0")
    case False
    with "1.prems" show ?thesis
      by (subst (asm) strip_zeros.simps) auto
  next
    case True
    with "1.prems" have "strip_zeros (d div 10) (k + 1) = (d', k')"
      by (subst (asm) strip_zeros.simps) simp
    then have "(d' = 0 \<longleftrightarrow> d div 10 = 0) \<and> (d' \<noteq> 0 \<longrightarrow> d' mod 10 \<noteq> 0)"
      by (rule "1.IH" [OF True])
    moreover from True have "d div 10 \<noteq> 0" by (auto simp: div_eq_0_iff)
    ultimately show ?thesis using True by simp
  qed
qed

lemma strip_zeros_normalised: "d mod 10 \<noteq> 0 \<Longrightarrow> strip_zeros d k = (d, k)"
  by (subst strip_zeros.simps) simp

lemma strip_zeros_pow10:
  "d mod 10 \<noteq> 0 \<Longrightarrow> strip_zeros (d * 10 ^ z) k = (d, k + int z)"
proof (induction z arbitrary: k)
  case 0
  then show ?case by (simp add: strip_zeros_normalised)
next
  case (Suc z)
  from Suc.prems have "d \<noteq> 0" by auto
  then have "strip_zeros (d * 10 ^ Suc z) k = strip_zeros (d * 10 ^ z) (k + 1)"
    by (subst strip_zeros.simps) simp
  with Suc show ?case by simp
qed

lemma read_dec_exact:
  assumes "is_finite w" and "mant w \<noteq> 0" and "same_value d k (mant w) (exp2 w)"
  shows "read_dec d k = float_abs w"
proof -
  obtain d' k' where s: "strip_zeros d k = (d', k')" by (cases "strip_zeros d k")
  with assms(3) have "same_value d' k' (mant w) (exp2 w)" by (rule strip_zeros_same)
  with assms(1,2) have "round_dec d' k' = float_abs w" by (rule round_dec_exact)
  with s show ?thesis by (simp add: read_dec_def)
qed

lemma search_reads_back:
  "read_dec d k = w \<Longrightarrow> search w d k t = (d', k') \<Longrightarrow> read_dec d' k' = w"
proof (induction t)
  case 0
  then show ?case by simp
next
  case (Suc t)
  then show ?case
    by (auto simp: Let_def split: if_splits)
qed

lemma shortest_reads_back:
  assumes fin: "is_finite w" and nz: "\<not> is_zero w" and sh: "shortest w = (d, k)"
  shows "round_dec d k = float_abs w" and "d \<noteq> 0" and "d mod 10 \<noteq> 0"
proof -
  from nz have m: "mant w \<noteq> 0" by (simp add: mant_zero_iff)
  obtain d0 k0 where ex: "dec_exact (mant w) (exp2 w) = (d0, k0)"
    by (cases "dec_exact (mant w) (exp2 w)")
  obtain d1 k1 where se: "search (float_abs w) d0 k0 (length (digits d0) - 1) = (d1, k1)"
    by (cases "search (float_abs w) d0 k0 (length (digits d0) - 1)")
  from sh ex se have st: "strip_zeros d1 k1 = (d, k)" by (simp add: shortest_def)
  from ex have "same_value d0 k0 (mant w) (exp2 w)" by (rule dec_exact_same)
  with fin m have "read_dec d0 k0 = float_abs w" by (rule read_dec_exact)
  then have "read_dec d1 k1 = float_abs w" using se by (rule search_reads_back)
  with st show rd: "round_dec d k = float_abs w" by (simp add: read_dec_def)
  have "float_abs w \<noteq> 0"
  proof
    assume "float_abs w = 0"
    then have "unat (float_abs w) = 0" by simp
    then have "expo w = 0 \<and> fract w = 0" by (simp add: unat_float_abs)
    with nz show False by (simp add: is_zero_def)
  qed
  moreover have "round_dec 0 k = 0"
    by (simp add: round_dec_def round_pos_def Let_def)
  ultimately show "d \<noteq> 0" using rd by metis
  with strip_zeros_normal [OF st] show "d mod 10 \<noteq> 0" by simp
qed

subsection \<open>Digits and literals\<close>

lemma is_digit_char_of: "d < 10 \<Longrightarrow> is_digit (char_of (48 + d :: nat))"
  by (simp add: is_digit_def)

lemma digit_value: "d < 10 \<Longrightarrow> (of_char (char_of (48 + d :: nat)) :: nat) - 48 = d"
  by simp

lemma digits_all: "list_all is_digit (digits n)"
proof (induction n rule: digits.induct)
  case (1 n)
  show ?case
  proof (cases "n < 10")
    case True
    then show ?thesis
      by (subst digits.simps) (simp add: is_digit_char_of)
  next
    case False
    with 1 have "list_all is_digit (digits (n div 10))" by simp
    moreover have "is_digit (char_of (48 + n mod 10))"
      by (rule is_digit_char_of) simp
    ultimately show ?thesis
      using False by (subst digits.simps) simp
  qed
qed

lemma digits_nonempty: "digits n \<noteq> []"
  by (subst digits.simps) simp

lemma length_digits: "10 ^ k \<le> n \<Longrightarrow> n < 10 ^ Suc k \<Longrightarrow> length (digits n) = Suc k"
proof (induction k arbitrary: n)
  case 0
  then show ?case by (subst digits.simps) simp
next
  case (Suc k)
  from Suc.prems(1) have lo: "10 ^ k \<le> n div 10"
    by (simp add: less_eq_div_iff_mult_less_eq mult.commute)
  from Suc.prems(2) have hi: "n div 10 < 10 ^ Suc k"
    by (simp add: less_mult_imp_div_less mult.commute)
  have "(10 :: nat) \<le> 10 ^ Suc k" by simp
  with Suc.prems(1) have "\<not> n < 10" by linarith
  with Suc.IH [OF lo hi] show ?case
    by (subst digits.simps) simp
qed

lemma nat_of_digits_snoc: "nat_of_digits (s @ [c]) = 10 * nat_of_digits s + (of_char c - 48)"
  by (simp add: nat_of_digits_def)

lemma nat_of_digits_Nil [simp]: "nat_of_digits [] = 0"
  by (simp add: nat_of_digits_def)

lemma nat_of_digits_append:
  "nat_of_digits (a @ b) = nat_of_digits a * 10 ^ length b + nat_of_digits b"
proof (induction b rule: rev_induct)
  case Nil
  then show ?case by simp
next
  case (snoc c b)
  have "nat_of_digits (a @ b @ [c]) = 10 * nat_of_digits (a @ b) + (of_char c - 48)"
    using nat_of_digits_snoc [of "a @ b" c] by simp
  then show ?case
    by (simp add: snoc nat_of_digits_snoc algebra_simps)
qed

lemma nat_of_digits_digits: "nat_of_digits (digits n) = n"
proof (induction n rule: digits.induct)
  case (1 n)
  show ?case
  proof (cases "n < 10")
    case True
    then have "nat_of_digits [char_of (48 + n)] = n"
      using nat_of_digits_snoc [of "[]" "char_of (48 + n)"] by simp
    with True show ?thesis by (subst digits.simps) simp
  next
    case False
    with 1 have "nat_of_digits (digits (n div 10)) = n div 10" by simp
    moreover have "(of_char (char_of (48 + n mod 10)) :: nat) - 48 = n mod 10"
      by (rule digit_value) simp
    ultimately show ?thesis
      using False by (subst digits.simps) (simp add: nat_of_digits_snoc)
  qed
qed

lemma nat_of_digits_zeros: "nat_of_digits (replicate z CHR ''0'') = 0"
  by (induction z) (simp_all add: nat_of_digits_def)

lemma is_digit_zero: "is_digit CHR ''0''"
  by (simp add: is_digit_def)

lemma zeros_all: "list_all is_digit (replicate z CHR ''0'')"
  by (induction z) (simp_all add: is_digit_zero)

lemma not_digit: "\<not> is_digit CHR ''.''" "\<not> is_digit CHR ''e''" "\<not> is_digit CHR ''+''" "\<not> is_digit CHR ''-''"
  by (simp_all add: is_digit_def)

lemma takeWhile_digits:
  "list_all is_digit ds \<Longrightarrow> \<not> is_digit c \<Longrightarrow> takeWhile is_digit (ds @ c # r) = ds"
  by (simp add: takeWhile_tail list_all_iff)

lemma dropWhile_digits:
  "list_all is_digit ds \<Longrightarrow> \<not> is_digit c \<Longrightarrow> dropWhile is_digit (ds @ c # r) = c # r"
  by (simp add: dropWhile_append3 list_all_iff)

lemma takeWhile_digits_all: "list_all is_digit ds \<Longrightarrow> takeWhile is_digit ds = ds"
  by (simp add: list_all_iff)

lemma dropWhile_digits_all: "list_all is_digit ds \<Longrightarrow> dropWhile is_digit ds = []"
  by (simp add: list_all_iff)

text \<open>The literals of the three shapes a layout has.\<close>

lemma literal_point:
  assumes "list_all is_digit ip" and "list_all is_digit fp" and "ip \<noteq> []"
  shows "number_literal (ip @ CHR ''.'' # fp) =
    Some (FloatLit (nat_of_digits (ip @ fp)) (- int (length fp)))"
  using assms
  by (simp add: number_literal_def Let_def takeWhile_digits dropWhile_digits not_digit
      takeWhile_digits_all dropWhile_digits_all exponent_part_def)

lemma literal_point_exp:
  assumes "list_all is_digit ip" and "list_all is_digit fp" and "ip \<noteq> []"
    and "exponent_part (CHR ''e'' # r) = Some ex"
  shows "number_literal (ip @ CHR ''.'' # fp @ CHR ''e'' # r) =
    Some (FloatLit (nat_of_digits (ip @ fp)) (ex - int (length fp)))"
  using assms
  by (simp add: number_literal_def Let_def takeWhile_digits dropWhile_digits not_digit)

lemma literal_exp:
  assumes "list_all is_digit ip" and "ip \<noteq> []"
    and "exponent_part (CHR ''e'' # r) = Some ex"
  shows "number_literal (ip @ CHR ''e'' # r) = Some (FloatLit (nat_of_digits ip) ex)"
  using assms
  by (simp add: number_literal_def Let_def takeWhile_digits dropWhile_digits not_digit)

lemma pad2_digits: "list_all is_digit (pad2 (digits n))" "nat_of_digits (pad2 (digits n)) = n"
    "pad2 (digits n) \<noteq> []"
proof -
  show "list_all is_digit (pad2 (digits n))"
    by (simp add: pad2_def digits_all is_digit_zero)
  have "nat_of_digits (CHR ''0'' # digits n) = n"
    using nat_of_digits_append [of "''0''" "digits n"] nat_of_digits_snoc [of "[]" "CHR ''0''"]
    by (simp add: nat_of_digits_digits)
  then show "nat_of_digits (pad2 (digits n)) = n"
    by (simp add: pad2_def nat_of_digits_digits)
  show "pad2 (digits n) \<noteq> []"
    by (simp add: pad2_def digits_nonempty)
qed

lemma exponent_part_layout:
  "exponent_part (CHR ''e'' # (if x < 0 then ''-'' else ''+'') @ pad2 (digits (nat \<bar>x\<bar>))) = Some x"
  by (simp add: exponent_part_def Let_def pad2_digits)

text \<open>Reading a layout gives back the digits and the exponent.\<close>

lemma literal_layout:
  assumes nz: "d mod 10 \<noteq> 0"
  shows "\<exists>d' k'. number_literal (layout (digits d) (int (length (digits d)) + k)) = Some (FloatLit d' k')
           \<and> strip_zeros d' k' = (d, k)"
proof -
  define ds where "ds = digits d"
  define n where "n = length ds"
  define decpt where "decpt = int n + k"
  have all: "list_all is_digit ds" by (simp add: ds_def digits_all)
  have ne: "ds \<noteq> []" by (simp add: ds_def digits_nonempty)
  have val: "nat_of_digits ds = d" by (simp add: ds_def nat_of_digits_digits)
  have n0: "0 < n" using ne by (simp add: n_def)
  have all_take: "list_all is_digit (take j ds)" and all_drop: "list_all is_digit (drop j ds)" for j
    using all by (auto simp: list_all_iff dest: in_set_takeD in_set_dropD)
  have same: "strip_zeros d k = (d, k)" using nz by (rule strip_zeros_normalised)
  consider (small) "- 4 < decpt" "decpt \<le> 0"
    | (inner) "0 < decpt" "decpt < int n" "decpt \<le> 16"
    | (whole) "int n \<le> decpt" "decpt \<le> 16"
    | (expo1) "\<not> (- 4 < decpt \<and> decpt \<le> 16)" "n = 1"
    | (expo) "\<not> (- 4 < decpt \<and> decpt \<le> 16)" "1 < n"
    using n0 by linarith
  then have "\<exists>d' k'. number_literal (layout ds decpt) = Some (FloatLit d' k') \<and> strip_zeros d' k' = (d, k)"
  proof cases
    case small
    let ?fp = "replicate (nat (- decpt)) CHR ''0'' @ ds"
    have lay: "layout ds decpt = ''0'' @ CHR ''.'' # ?fp"
      using small by (simp add: layout_def)
    have "list_all is_digit ?fp" using all by (simp add: zeros_all)
    then have "number_literal (layout ds decpt) =
        Some (FloatLit (nat_of_digits (''0'' @ ?fp)) (- int (length ?fp)))"
      unfolding lay by (intro literal_point) (simp_all add: is_digit_zero)
    moreover have "nat_of_digits (''0'' @ ?fp) = d"
      using nat_of_digits_append [of "''0'' @ replicate (nat (- decpt)) CHR ''0''" ds]
        nat_of_digits_zeros [of "Suc (nat (- decpt))"]
      by (simp add: val)
    moreover have "- int (length ?fp) = k"
      using small by (simp add: decpt_def n_def)
    ultimately show ?thesis using same by simp
  next
    case inner
    have lay: "layout ds decpt = take (nat decpt) ds @ CHR ''.'' # drop (nat decpt) ds"
      using inner by (simp add: layout_def n_def)
    have "take (nat decpt) ds \<noteq> []" using inner ne by simp
    with all_take all_drop have "number_literal (layout ds decpt) =
        Some (FloatLit (nat_of_digits (take (nat decpt) ds @ drop (nat decpt) ds))
          (- int (length (drop (nat decpt) ds))))"
      unfolding lay by (intro literal_point)
    moreover have "- int (length (drop (nat decpt) ds)) = k"
      using inner by (simp add: decpt_def n_def)
    ultimately show ?thesis using same by (simp add: val)
  next
    case whole
    let ?ip = "ds @ replicate (nat decpt - n) CHR ''0''"
    have pos: "0 < decpt" using whole n0 by linarith
    have lay: "layout ds decpt = ?ip @ CHR ''.'' # ''0''"
      using whole pos by (simp add: layout_def n_def)
    have "list_all is_digit ?ip" using all by (simp add: zeros_all)
    then have "number_literal (layout ds decpt) =
        Some (FloatLit (nat_of_digits (?ip @ ''0'')) (- int (length ''0'')))"
      unfolding lay by (intro literal_point) (simp_all add: is_digit_zero ne)
    moreover have "nat_of_digits (?ip @ ''0'') = d * 10 ^ Suc (nat decpt - n)"
      using nat_of_digits_append [of ds "replicate (Suc (nat decpt - n)) CHR ''0''"]
        nat_of_digits_zeros [of "Suc (nat decpt - n)"]
      by (simp add: val replicate_append_same)
    moreover have "strip_zeros (d * 10 ^ Suc (nat decpt - n)) (- 1) = (d, - 1 + int (Suc (nat decpt - n)))"
      using nz by (rule strip_zeros_pow10)
    moreover have "- 1 + int (Suc (nat decpt - n)) = k"
      using whole by (simp add: decpt_def)
    ultimately show ?thesis by simp
  next
    case expo1
    then have one: "take 1 ds = ds" by (simp add: n_def)
    let ?r = "(if decpt - 1 < 0 then ''-'' else ''+'') @ pad2 (digits (nat \<bar>decpt - 1\<bar>))"
    have lay: "layout ds decpt = ds @ CHR ''e'' # ?r"
      unfolding layout_def if_not_P [OF expo1(1)] using expo1(2) one by (simp add: n_def)
    have "number_literal (layout ds decpt) = Some (FloatLit (nat_of_digits ds) (decpt - 1))"
      unfolding lay using all ne exponent_part_layout by (rule literal_exp)
    moreover have "decpt - 1 = k" using expo1 by (simp add: decpt_def)
    ultimately show ?thesis using same by (simp add: val)
  next
    case expo
    let ?r = "(if decpt - 1 < 0 then ''-'' else ''+'') @ pad2 (digits (nat \<bar>decpt - 1\<bar>))"
    have lay: "layout ds decpt = take 1 ds @ CHR ''.'' # drop 1 ds @ CHR ''e'' # ?r"
      unfolding layout_def if_not_P [OF expo(1)] using expo(2) by (simp add: n_def)
    have "take 1 ds \<noteq> []" using ne by simp
    with all_take all_drop have "number_literal (layout ds decpt) =
        Some (FloatLit (nat_of_digits (take 1 ds @ drop 1 ds)) (decpt - 1 - int (length (drop 1 ds))))"
      unfolding lay using exponent_part_layout by (intro literal_point_exp)
    moreover have "decpt - 1 - int (length (drop 1 ds)) = k"
      using expo by (simp add: decpt_def n_def)
    ultimately show ?thesis using same by (simp add: val)
  qed
  then show ?thesis by (simp add: ds_def n_def decpt_def)
qed

subsection \<open>The representation and its evaluation\<close>

lemma num_char_digit: "is_digit c \<Longrightarrow> num_char c"
  by (simp add: num_char_def)

lemma list_all_num_char_digits: "list_all is_digit s \<Longrightarrow> list_all num_char s"
  by (simp add: list_all_iff num_char_def)

lemma num_char_plain:
  "num_char c \<Longrightarrow> c \<noteq> CHR '','' \<and> c \<noteq> CHR '' '' \<and> c \<noteq> CHR ''('' \<and> c \<noteq> CHR '')''"
  by (auto simp: num_char_def is_digit_def)

lemma layout_chars:
  assumes "list_all is_digit ds"
  shows "list_all num_char (layout ds decpt)"
proof -
  have a: "list_all num_char ds" using assms by (rule list_all_num_char_digits)
  then have t: "list_all num_char (take j ds)" "list_all num_char (drop j ds)" for j
    by (auto simp: list_all_iff dest: in_set_takeD in_set_dropD)
  have z: "list_all num_char (replicate j CHR ''0'')" for j
    by (rule list_all_num_char_digits) (rule zeros_all)
  have p: "list_all num_char (pad2 (digits j))" for j
    by (rule list_all_num_char_digits) (rule pad2_digits)
  have c: "num_char CHR ''0''" "num_char CHR ''.''" "num_char CHR ''e''" "num_char CHR ''+''" "num_char CHR ''-''"
    by (simp_all add: num_char_def is_digit_zero)
  show ?thesis
    by (simp add: layout_def a t z p c)
qed

lemma layout_hd:
  assumes "list_all is_digit ds" and "ds \<noteq> []"
  shows "layout ds decpt \<noteq> [] \<and> is_digit (hd (layout ds decpt))"
proof -
  from assms obtain c r where ds: "ds = c # r" and c: "is_digit c"
    by (cases ds) auto
  show ?thesis
  proof (cases "0 < decpt")
    case True
    then have "nat decpt = Suc (nat decpt - 1)" by simp
    then obtain j where j: "nat decpt = Suc j" by blast
    show ?thesis
      using True c by (simp add: layout_def ds j is_digit_zero)
  next
    case False
    then show ?thesis
      using c by (simp add: layout_def ds is_digit_zero)
  qed
qed

text \<open>The unsigned part of the representation of a finite float reads back as its magnitude.\<close>

lemma body_reads_back:
  assumes fin: "is_finite w"
  defines "body \<equiv> (if is_zero w then ''0.0''
      else (case shortest w of (d, k) \<Rightarrow> layout (digits d) (int (length (digits d)) + k)))"
  shows "\<exists>d k. number_literal body = Some (FloatLit d k) \<and> read_dec d k = float_abs w"
    and "list_all num_char body" and "body \<noteq> []" and "is_digit (hd body)"
proof -
  show "\<exists>d k. number_literal body = Some (FloatLit d k) \<and> read_dec d k = float_abs w"
  proof (cases "is_zero w")
    case True
    have "number_literal ''0.0'' = Some (FloatLit (nat_of_digits (''0'' @ ''0'')) (- int (length ''0'')))"
      using literal_point [of "''0''" "''0''"] by (simp add: is_digit_zero)
    moreover have "nat_of_digits ''00'' = 0"
      using nat_of_digits_zeros [of 2] by (simp add: numeral_2_eq_2)
    moreover have "read_dec 0 k = 0" for k
      by (subst read_dec_def, subst strip_zeros.simps) (simp add: round_dec_def round_pos_def Let_def)
    moreover from True have "unat (float_abs w) = 0"
      by (simp add: unat_float_abs is_zero_def)
    then have "float_abs w = 0" by (simp only: unat_eq_0)
    ultimately show ?thesis using True by (simp add: body_def)
  next
    case False
    obtain d k where sh: "shortest w = (d, k)" by (cases "shortest w")
    from shortest_reads_back [OF fin False sh]
    have rd: "round_dec d k = float_abs w" and nz: "d mod 10 \<noteq> 0" by simp_all
    from literal_layout [OF nz, of k] obtain d' k' where
      lit: "number_literal (layout (digits d) (int (length (digits d)) + k)) = Some (FloatLit d' k')"
      and st: "strip_zeros d' k' = (d, k)" by blast
    from st rd have "read_dec d' k' = float_abs w" by (simp add: read_dec_def)
    with lit False sh show ?thesis by (auto simp: body_def)
  qed
  have z: "list_all num_char ''0.0''" "is_digit (hd ''0.0'')"
    by (simp_all add: num_char_def is_digit_zero)
  show "list_all num_char body"
    using z layout_chars [OF digits_all] by (simp add: body_def split: prod.splits)
  show "body \<noteq> []"
    using layout_hd [OF digits_all digits_nonempty] by (simp add: body_def split: prod.splits)
  show "is_digit (hd body)"
    using z layout_hd [OF digits_all digits_nonempty] by (simp add: body_def split: prod.splits)
qed

text \<open>The representation of a finite float is an argument that evaluates to the float.\<close>

lemma float_repr_eval:
  assumes fin: "is_finite w"
  shows "\<exists>e. parse_arg (float_repr w) = Some e \<and>
           (\<forall>n. \<exists>f n'. eval_expr e n = Some (Inr (PyFloat f), n') \<and> bits f = w)"
    and "list_all num_char (float_repr w)" and "float_repr w \<noteq> []"
proof -
  define body where "body = (if is_zero w then ''0.0''
      else (case shortest w of (d, k) \<Rightarrow> layout (digits d) (int (length (digits d)) + k)))"
  from fin have nn: "\<not> is_nan w" "\<not> is_inf w"
    by (simp_all add: is_finite_def is_nan_def is_inf_def)
  have rep: "float_repr w = (if sign_of w then ''-'' else []) @ body"
    using nn by (simp add: float_repr_def body_def)
  from body_reads_back [OF fin] obtain d k where
    lit: "number_literal body = Some (FloatLit d k)" and rd: "read_dec d k = float_abs w"
    and chars: "list_all num_char body" and ne: "body \<noteq> []" and hd: "is_digit (hd body)"
    unfolding body_def by blast
  from ne hd lit have op: "parse_operand body = Some (Number (FloatLit d k))"
    by (cases body) (simp_all add: parse_operand_def)
  from hd have "hd body \<noteq> CHR ''-''" by (auto simp: is_digit_def)
  with ne op have pos: "parse_arg body = Some (Number (FloatLit d k))"
    by (cases body) (simp_all add: parse_arg_def)
  have neg: "parse_arg (CHR ''-'' # body) = Some (Neg (Number (FloatLit d k)))"
    using op by (simp add: parse_arg_def)
  show "\<exists>e. parse_arg (float_repr w) = Some e \<and>
           (\<forall>n. \<exists>f n'. eval_expr e n = Some (Inr (PyFloat f), n') \<and> bits f = w)"
  proof (cases "sign_of w")
    case True
    with rd have "float_neg (read_dec d k) = w" by (simp add: float_neg_abs)
    then have "\<forall>n. \<exists>f n'. eval_expr (Neg (Number (FloatLit d k))) n = Some (Inr (PyFloat f), n') \<and> bits f = w"
      by simp
    with True neg show ?thesis by (simp add: rep)
  next
    case False
    with rd have "read_dec d k = w" by (simp add: float_abs_pos)
    then have "\<forall>n. \<exists>f n'. eval_expr (Number (FloatLit d k)) n = Some (Inr (PyFloat f), n') \<and> bits f = w"
      by simp
    with False pos show ?thesis by (simp add: rep)
  qed
  show "list_all num_char (float_repr w)"
    using chars by (simp add: rep num_char_def)
  show "float_repr w \<noteq> []"
    using ne by (simp add: rep)
qed

lemma strip_plain:
  assumes "CHR '' '' \<notin> set s"
  shows "strip s = s" and "strip (CHR '' '' # s) = s"
proof -
  have a: "dropWhile (\<lambda>c. c = CHR '' '') t = t" if "CHR '' '' \<notin> set t" for t
    using that by (cases t) auto
  from assms have "CHR '' '' \<notin> set (rev s)" by simp
  then have "dropWhile (\<lambda>c. c = CHR '' '') (rev s) = rev s" by (rule a)
  with a [OF assms] show "strip s = s" "strip (CHR '' '' # s) = s"
    by (simp_all add: strip_def)
qed

lemma parse_call_repr:
  assumes a: "list_all num_char A" and b: "list_all num_char B"
    and pa: "parse_arg A = Some x" and pb: "parse_arg B = Some y"
  shows "parse_call (''Vector2d('' @ A @ '', '' @ B @ '')'') = Some (''Vector2d'', x, y)"
proof -
  let ?s = "''Vector2d('' @ A @ '', '' @ B @ '')''"
  from a b have plain: "CHR '','' \<notin> set A" "CHR '' '' \<notin> set A" "CHR '' '' \<notin> set B"
    by (auto simp: list_all_iff dest: num_char_plain)
  have f: "takeWhile (\<lambda>c. c \<noteq> CHR ''('') ?s = ''Vector2d''"
    by simp
  have r: "dropWhile (\<lambda>c. c \<noteq> CHR ''('') ?s = CHR ''('' # A @ '', '' @ B @ '')''"
    by simp
  have inner: "butlast (tl (CHR ''('' # A @ '', '' @ B @ '')'')) = A @ CHR '','' # CHR '' '' # B"
    by (simp add: butlast_append)
  have a1: "takeWhile (\<lambda>c. c \<noteq> CHR '','') (A @ CHR '','' # CHR '' '' # B) = A"
    using plain(1) by (auto simp add: takeWhile_tail)
  have r2: "dropWhile (\<lambda>c. c \<noteq> CHR '','') (A @ CHR '','' # CHR '' '' # B) = CHR '','' # CHR '' '' # B"
    using plain(1) by (auto simp add: dropWhile_append3)
  show ?thesis
    unfolding parse_call_def f r Let_def inner a1 r2
    using pa pb by (simp add: strip_plain [OF plain(2)] strip_plain [OF plain(3)])
qed

lemma search_exact_prefix:
  assumes "d mod 10 ^ Suc t = 0" and "read_dec (d div 10 ^ Suc t) (k + int (Suc t)) = w"
  shows "search w d k (Suc t) = (d div 10 ^ Suc t, k + int (Suc t))"
  using assms by (simp add: Let_def)

lemma float_repr_small_int:
  assumes fin: "is_finite w" and pos: "\<not> sign_of w" and m: "mant w = j * 2 ^ c"
    and e: "exp2 w = - int c" and j: "0 < j" "j < 10"
  shows "float_repr w = digits j @ ''.0''"
proof -
  have nz: "mant w \<noteq> 0" using m j by simp
  then have z: "\<not> is_zero w" by (simp add: mant_zero_iff)
  have ex: "dec_exact (mant w) (exp2 w) = (j * 10 ^ c, - int c)" if "c \<noteq> 0"
    using that by (simp add: dec_exact_def m e power_mult_distrib [symmetric] mult.assoc)
  have sv: "same_value j 0 (mant w) (exp2 w)"
    by (simp add: same_value_def m e)
  have rd: "read_dec j 0 = w"
    using read_dec_exact [OF fin nz sv] pos by (simp add: float_abs_pos)
  have st: "strip_zeros j 0 = (j, 0)"
    using j by (intro strip_zeros_normalised) simp
  have dj: "digits j = [char_of (48 + j)]"
    using j by (subst digits.simps) simp
  have sh: "shortest w = (j, 0)"
  proof (cases "c = 0")
    case True
    then have "dec_exact (mant w) (exp2 w) = (j, 0)" by (simp add: dec_exact_def m e)
    then show ?thesis by (simp add: shortest_def dj st)
  next
    case False
    then obtain t where t: "c = Suc t" by (cases c) auto
    have len: "length (digits (j * 10 ^ c)) = Suc c"
      using j by (intro length_digits) simp_all
    have "search (float_abs w) (j * 10 ^ c) (- int c) c = (j, 0)"
      using search_exact_prefix [of "j * 10 ^ c" t "- int c" "float_abs w"] rd pos j
      by (simp add: t float_abs_pos)
    then show ?thesis
      using ex [OF False] by (simp add: shortest_def len st)
  qed
  from fin have nn: "\<not> is_nan w" "\<not> is_inf w"
    by (simp_all add: is_finite_def is_nan_def is_inf_def)
  show ?thesis
    using nn pos z by (simp add: float_repr_def sh dj layout_def)
qed

lemma float_repr_1: "float_repr 0x3FF0000000000000 = ''1.0''"
proof -
  have f: "expo 0x3FF0000000000000 = 1023" "fract 0x3FF0000000000000 = 0"
    by (simp_all add: expo_def fract_def)
  have "float_repr 0x3FF0000000000000 = digits 1 @ ''.0''"
    by (rule float_repr_small_int [where c = 52])
      (simp_all add: is_finite_def sign_of_def mant_def exp2_def f)
  moreover have "digits 1 = ''1''" by code_simp
  ultimately show ?thesis by simp
qed

lemma float_repr_3: "float_repr 0x4008000000000000 = ''3.0''"
proof -
  have f: "expo 0x4008000000000000 = 1024" "fract 0x4008000000000000 = 2 ^ 51"
    by (simp_all add: expo_def fract_def)
  have "float_repr 0x4008000000000000 = digits 3 @ ''.0''"
    by (rule float_repr_small_int [where c = 51])
      (simp_all add: is_finite_def sign_of_def mant_def exp2_def f)
  moreover have "digits 3 = ''3''" by code_simp
  ultimately show ?thesis by simp
qed

lemma float_repr_4: "float_repr 0x4010000000000000 = ''4.0''"
proof -
  have f: "expo 0x4010000000000000 = 1025" "fract 0x4010000000000000 = 0"
    by (simp_all add: expo_def fract_def)
  have "float_repr 0x4010000000000000 = digits 4 @ ''.0''"
    by (rule float_repr_small_int [where c = 50])
      (simp_all add: is_finite_def sign_of_def mant_def exp2_def f)
  moreover have "digits 4 = ''4''" by code_simp
  ultimately show ?thesis by simp
qed

lemma doctest_repr:
  "Vector2d_repr \<lparr>private_x = \<lparr>ident = 0, bits = 0x4008000000000000\<rparr>,
                  private_y = \<lparr>ident = 1, bits = 0x4010000000000000\<rparr>\<rparr> = ''Vector2d(3.0, 4.0)''"
  by (simp add: Vector2d_repr_def x_prop_def y_prop_def float_repr_3 float_repr_4)

lemma doctest_eval:
  "py_eval ''Vector2d(3.0, 4.0)'' 2 =
     Some (Inr \<lparr>private_x = \<lparr>ident = 2, bits = 0x4008000000000000\<rparr>,
                private_y = \<lparr>ident = 3, bits = 0x4010000000000000\<rparr>\<rparr>, 4)"
  by code_simp

text \<open>
  Claim C7, amended.  For every vector whose components are finite, \<^verbatim>\<open>repr(v)\<close> is an
  expression \<^verbatim>\<open>Vector2d(x, y)\<close> that evaluates to a vector equal to \<open>v\<close>.  (For a
  component that is infinite or NaN the representation names \<^verbatim>\<open>inf\<close> or \<^verbatim>\<open>nan\<close>,
  which evaluation does not know: see the counterexample.)
\<close>

theorem repr_eval_finite:
  assumes "is_finite (bits (x_prop v))" and "is_finite (bits (y_prop v))"
  shows "\<exists>v' n'. py_eval (Vector2d_repr v) n = Some (Inr v', n') \<and>
           Vector2d_eq v' (PyVec v) = Inr True"
proof -
  from float_repr_eval [OF assms(1)] obtain ex where
    px: "parse_arg (float_repr (bits (x_prop v))) = Some ex"
    and evx: "\<And>n. \<exists>f n'. eval_expr ex n = Some (Inr (PyFloat f), n') \<and> bits f = bits (x_prop v)"
    and cx: "list_all num_char (float_repr (bits (x_prop v)))"
    by blast
  from float_repr_eval [OF assms(2)] obtain ey where
    py: "parse_arg (float_repr (bits (y_prop v))) = Some ey"
    and evy: "\<And>n. \<exists>f n'. eval_expr ey n = Some (Inr (PyFloat f), n') \<and> bits f = bits (y_prop v)"
    and cy: "list_all num_char (float_repr (bits (y_prop v)))"
    by blast
  have pc: "parse_call (Vector2d_repr v) = Some (''Vector2d'', ex, ey)"
    unfolding Vector2d_repr_def using cx cy px py by (rule parse_call_repr)
  from evx [of n] obtain fx n1 where
    ex: "eval_expr ex n = Some (Inr (PyFloat fx), n1)" and bfx: "bits fx = bits (x_prop v)"
    by blast
  from evy [of n1] obtain fy n2 where
    ey: "eval_expr ey n1 = Some (Inr (PyFloat fy), n2)" and bfy: "bits fy = bits (y_prop v)"
    by blast
  have ev: "py_eval (Vector2d_repr v) n = Some (Inr \<lparr>private_x = fx, private_y = fy\<rparr>, n2)"
    by (simp add: py_eval_def pc ex ey Vector2d_init_def)
  from assms have "\<not> is_nan (bits (x_prop v))" "\<not> is_nan (bits (y_prop v))"
    by (simp_all add: is_finite_def is_nan_def)
  then have "Vector2d_eq \<lparr>private_x = fx, private_y = fy\<rparr> (PyVec v) = Inr True"
    by (simp add: Vector2d_eq_def Vector2d_iter_def x_prop_def y_prop_def float_eq_def bfx [unfolded x_prop_def] bfy [unfolded y_prop_def])
  with ev show ?thesis by blast
qed

theorem repr_eval_finite_witness:
  "is_finite (bits (x_prop \<lparr>private_x = \<lparr>ident = 0, bits = 0x4008000000000000\<rparr>,
                            private_y = \<lparr>ident = 1, bits = 0x4010000000000000\<rparr>\<rparr>)) \<and>
   is_finite (bits (y_prop \<lparr>private_x = \<lparr>ident = 0, bits = 0x4008000000000000\<rparr>,
                            private_y = \<lparr>ident = 1, bits = 0x4010000000000000\<rparr>\<rparr>)) \<and>
   Vector2d_repr \<lparr>private_x = \<lparr>ident = 0, bits = 0x4008000000000000\<rparr>,
                  private_y = \<lparr>ident = 1, bits = 0x4010000000000000\<rparr>\<rparr> = ''Vector2d(3.0, 4.0)'' \<and>
   (\<exists>v' n'. py_eval ''Vector2d(3.0, 4.0)'' 2 = Some (Inr v', n') \<and>
            Vector2d_eq v' (PyVec \<lparr>private_x = \<lparr>ident = 0, bits = 0x4008000000000000\<rparr>,
                                    private_y = \<lparr>ident = 1, bits = 0x4010000000000000\<rparr>\<rparr>) = Inr True)"
proof -
  let ?v = "\<lparr>private_x = \<lparr>ident = 0, bits = 0x4008000000000000\<rparr>,
             private_y = \<lparr>ident = 1, bits = 0x4010000000000000\<rparr>\<rparr>"
  have fx: "is_finite (bits (x_prop ?v))"
    by (simp add: x_prop_def is_finite_def expo_def)
  have fy: "is_finite (bits (y_prop ?v))"
    by (simp add: y_prop_def is_finite_def expo_def)
  show ?thesis
    using fx fy doctest_repr repr_eval_finite [OF fx fy, of 2] by simp
qed

text \<open>
  The claim as stated, for every vector, fails at \<^verbatim>\<open>Vector2d(float('inf'), 0)\<close>: its
  representation is \<^verbatim>\<open>Vector2d(inf, 0.0)\<close>, and evaluating it raises NameError.
\<close>

theorem repr_eval_counterexample:
  "Vector2d_repr \<lparr>private_x = \<lparr>ident = 0, bits = 0x7FF0000000000000\<rparr>,
                  private_y = \<lparr>ident = 1, bits = 0\<rparr>\<rparr> = ''Vector2d(inf, 0.0)'' \<and>
   py_eval (Vector2d_repr \<lparr>private_x = \<lparr>ident = 0, bits = 0x7FF0000000000000\<rparr>,
                           private_y = \<lparr>ident = 1, bits = 0\<rparr>\<rparr>) 2
     = Some (Inl (NameError ''inf''), 2)"
proof -
  have r: "Vector2d_repr \<lparr>private_x = \<lparr>ident = 0, bits = 0x7FF0000000000000\<rparr>,
                  private_y = \<lparr>ident = 1, bits = 0\<rparr>\<rparr> = ''Vector2d(inf, 0.0)''"
    by code_simp
  have e: "py_eval ''Vector2d(inf, 0.0)'' 2 = Some (Inl (NameError ''inf''), 2)"
    by code_simp
  from r e show ?thesis by simp
qed

subsection \<open>The arc tangent\<close>

lemma fields_1: "expo 0x3FF0000000000000 = 1023" "fract 0x3FF0000000000000 = 0"
  "\<not> sign_of 0x3FF0000000000000"
  by (simp_all add: expo_def fract_def sign_of_def)

lemma fields_pi4: "expo 0x3FE921FB54442D18 = 1022" "fract 0x3FE921FB54442D18 = 2570638124657944"
  "\<not> sign_of 0x3FE921FB54442D18"
  by (simp_all add: expo_def fract_def sign_of_def)

lemma fields_sqrt2: "expo 0x3FF6A09E667F3BCD = 1023" "fract 0x3FF6A09E667F3BCD = 1865452045155277"
  "\<not> sign_of 0x3FF6A09E667F3BCD"
  by (simp_all add: expo_def fract_def sign_of_def)

lemma fields_3: "expo 0x4008000000000000 = 1024" "fract 0x4008000000000000 = 2 ^ 51"
  "\<not> sign_of 0x4008000000000000"
  by (simp_all add: expo_def fract_def sign_of_def)

lemma fields_4: "expo 0x4010000000000000 = 1025" "fract 0x4010000000000000 = 0"
  "\<not> sign_of 0x4010000000000000"
  by (simp_all add: expo_def fract_def sign_of_def)

lemma fields_0: "expo 0 = 0" "fract 0 = 0" "\<not> sign_of 0"
  by (simp_all add: expo_def fract_def sign_of_def)

lemma atan_terms_0 [simp]: "atan_terms p u2 0 i = 0"
  by (simp add: atan_terms.simps)

lemma copysign_pos: "\<not> sign_of a \<Longrightarrow> \<not> sign_of b \<Longrightarrow> copysign a b = a"
  by (simp add: copysign_def float_abs_pos)

lemma atan2_1_1: "atan2 0x3FF0000000000000 0x3FF0000000000000 = 0x3FE921FB54442D18"
proof -
  have l: "bit_length (2 ^ 52) = Suc 52"
    by (rule bit_length_eq) simp_all
  have r: "bit_length (0x3243F6A8885A308D313198A2E03707344 div 4) = Suc 127"
    by (rule bit_length_eq) simp_all
  have s: "\<not> sign_of 0x3FE921FB54442D18"
    by (simp add: sign_of_def)
  have "atan2 0x3FF0000000000000 0x3FF0000000000000 = copysign 0x3FE921FB54442D18 0x3FF0000000000000"
    using l r
    by (simp add: atan2_def is_nan_def is_inf_def is_zero_def fields_1 mant_def exp2_def Let_def
        atan_unit_def atan_small_def pi_fixed_def round_pos_def)
  then show ?thesis
    by (simp add: copysign_pos s fields_1)
qed

lemma atan2_0_1: "atan2 0 0x3FF0000000000000 = 0"
  by (simp add: atan2_def is_nan_def is_inf_def is_zero_def fields_1 fields_0 copysign_pos)

lemma atan2_0_0: "atan2 0 0 = 0"
  by (simp add: atan2_def is_nan_def is_inf_def is_zero_def fields_0 copysign_pos)

lemma atan2_1_0: "atan2 0x3FF0000000000000 0 = 0x3FF921FB54442D18"
proof -
  have l: "bit_length (2 ^ 1074) = Suc 1074"
    by (rule bit_length_eq) simp_all
  have r: "bit_length (0x3243F6A8885A308D313198A2E03707344 * 2 ^ 1075 div 2) = Suc 1203"
    by (rule bit_length_eq) simp_all
  have s: "\<not> sign_of 0x3FF921FB54442D18"
    by (simp add: sign_of_def)
  have "atan2 0x3FF0000000000000 0 = copysign 0x3FF921FB54442D18 0x3FF0000000000000"
    using l r
    by (simp add: atan2_def is_nan_def is_inf_def is_zero_def fields_1 fields_0 mant_def exp2_def
        Let_def atan_unit_def atan_small_def pi_fixed_def round_pos_def)
  then show ?thesis
    by (simp add: copysign_pos s fields_1)
qed

lemma atan2_0_neg1: "atan2 0 0xBFF0000000000000 = 0x400921FB54442D18"
proof -
  have f: "expo 0xBFF0000000000000 = 1023" "fract 0xBFF0000000000000 = 0"
    "sign_of 0xBFF0000000000000"
    by (simp_all add: expo_def fract_def sign_of_def)
  have s: "\<not> sign_of 0x400921FB54442D18"
    by (simp add: sign_of_def)
  show ?thesis
    by (simp add: atan2_def is_nan_def is_inf_def is_zero_def f fields_0 copysign_pos s)
qed

lemma atan2_neg1_neg1: "atan2 0xBFF0000000000000 0xBFF0000000000000 = 0xC002D97C7F3321D2"
proof -
  have f: "expo 0xBFF0000000000000 = 1023" "fract 0xBFF0000000000000 = 0"
    "sign_of 0xBFF0000000000000"
    by (simp_all add: expo_def fract_def sign_of_def)
  have l: "bit_length (2 ^ 52) = Suc 52"
    by (rule bit_length_eq) simp_all
  have r: "bit_length (0x3243F6A8885A308D313198A2E03707344 - 0x3243F6A8885A308D313198A2E03707344 div 4)
      = Suc 129"
    by (rule bit_length_eq) simp_all
  have "atan2 0xBFF0000000000000 0xBFF0000000000000 = copysign 0x4002D97C7F3321D2 0xBFF0000000000000"
    using l r
    by (simp add: atan2_def is_nan_def is_inf_def is_zero_def f mant_def exp2_def Let_def
        atan_unit_def atan_small_def pi_fixed_def round_pos_def)
  then show ?thesis
    by (simp add: copysign_def f float_abs_def float_neg_def)
qed

text \<open>
  \<^verbatim>\<open>Vector2d(3, 4).angle()\<close> is \<^verbatim>\<open>0.9272952180016122\<close>: the series is applied to
  \<open>1 / 7\<close>, and its 23 terms are added one by one.
\<close>

lemma atan_terms_7:
  "atan_terms 129 13889076200854631161770392140072171896 97223533405982418132392744980505203273 0
     = 96570131199629097087471623845659336804"
  apply (subst atan_terms.simps, simp)+
  done

lemma atan2_4_3: "atan2 0x4010000000000000 0x4008000000000000 = 0x3FEDAC670561BB4F"
proof -
  have l: "bit_length (2 ^ 53) = Suc 53" "bit_length (3 * 2 ^ 51) = Suc 52"
    by (rule bit_length_eq; simp)+
  have r: "bit_length 631084423232112471017311810426594728454 = Suc 128"
    by (rule bit_length_eq) simp_all
  have s: "\<not> sign_of 0x3FEDAC670561BB4F"
    by (simp add: sign_of_def)
  have "atan2 0x4010000000000000 0x4008000000000000 = copysign 0x3FEDAC670561BB4F 0x4010000000000000"
    using l r atan_terms_7
    by (simp add: atan2_def is_nan_def is_inf_def is_zero_def fields_3 fields_4 mant_def exp2_def
        Let_def atan_unit_def atan_small_def pi_fixed_def round_pos_def)
  then show ?thesis
    by (simp add: copysign_pos s fields_4)
qed

lemma arctan_partial_sums:
  fixes x :: real
  assumes "0 \<le> x" and "x \<le> 1"
  shows "(\<Sum>i<2 * n. (- 1) ^ i * (1 / real (i * 2 + 1) * x ^ (i * 2 + 1))) \<le> arctan x"
    and "arctan x \<le> (\<Sum>i<2 * n + 1. (- 1) ^ i * (1 / real (i * 2 + 1) * x ^ (i * 2 + 1)))"
proof -
  let ?a = "\<lambda>n. 1 / real (n * 2 + 1) * x ^ (n * 2 + 1)"
  from assms have ax: "\<bar>x\<bar> \<le> 1" by simp
  have zero: "?a \<longlonglongrightarrow> 0" using ax by (rule zeroseq_arctan_series)
  have pos: "0 \<le> ?a n" for n using assms by simp
  have mono: "?a (Suc n) \<le> ?a n" for n
  proof -
    have "x ^ (Suc n * 2 + 1) \<le> x ^ (n * 2 + 1)"
      using assms by (intro power_decreasing) simp_all
    moreover have "1 / real (Suc n * 2 + 1) \<le> 1 / real (n * 2 + 1)"
      by (intro divide_left_mono) simp_all
    ultimately show ?thesis
      using assms by (intro mult_mono) simp_all
  qed
  have s: "arctan x = (\<Sum>i. (- 1) ^ i * ?a i)"
    using ax by (rule arctan_series)
  show "(\<Sum>i<2 * n. (- 1) ^ i * ?a i) \<le> arctan x"
    unfolding s using zero pos mono by (rule summable_Leibniz'(2))
  show "arctan x \<le> (\<Sum>i<2 * n + 1. (- 1) ^ i * ?a i)"
    unfolding s using zero pos mono by (rule summable_Leibniz'(4))
qed

lemma pi4_bounds:
  "7074237752028440 / 2 ^ 53 \<le> pi / 4" "pi / 4 \<le> 7074237752028440 / 2 ^ 53 + 1 / 2 ^ 54"
proof -
  have l5: "986977799249403791849 / 5000000000000000000000 \<le> arctan (1 / 5)"
    by (rule order_trans [OF _ arctan_partial_sums(1) [of "1 / 5" 7]])
      (simp_all add: eval_nat_numeral lessThan_Suc)
  have u5: "arctan (1 / 5) \<le> 1973955598498807583701 / 10000000000000000000000"
    by (rule order_trans [OF arctan_partial_sums(2) [of "1 / 5" 7]])
      (simp_all add: eval_nat_numeral lessThan_Suc)
  have l239: "10460190005186809661 / 2500000000000000000000 \<le> arctan (1 / 239)"
    by (rule order_trans [OF _ arctan_partial_sums(1) [of "1 / 239" 2]])
      (simp_all add: eval_nat_numeral lessThan_Suc)
  have u239: "arctan (1 / 239) \<le> 20920380010373619323 / 5000000000000000000000"
    by (rule order_trans [OF arctan_partial_sums(2) [of "1 / 239" 2]])
      (simp_all add: eval_nat_numeral lessThan_Suc)
  have m: "pi / 4 = 4 * arctan (1 / 5) - arctan (1 / 239)"
    by (rule machin)
  have lo: "(7074237752028440 / 2 ^ 53 :: real) \<le>
      4 * (986977799249403791849 / 5000000000000000000000) - 20920380010373619323 / 5000000000000000000000"
    by simp
  have hi: "4 * (1973955598498807583701 / 10000000000000000000000) - 10460190005186809661 / 2500000000000000000000
      \<le> (7074237752028440 / 2 ^ 53 + 1 / 2 ^ 54 :: real)"
    by simp
  show "7074237752028440 / 2 ^ 53 \<le> pi / 4"
    unfolding m using l5 u239 lo by linarith
  show "pi / 4 \<le> 7074237752028440 / 2 ^ 53 + 1 / 2 ^ 54"
    unfolding m using u5 l239 hi by linarith
qed

lemma valof_pi4: "\<bar>valof 0x3FE921FB54442D18 - pi / 4\<bar> \<le> 1 / 2 ^ 54"
proof -
  have v: "valof 0x3FE921FB54442D18 = 7074237752028440 / 2 ^ 53"
    by (simp add: valof_def mant_def exp2_def fields_pi4 power_int_minus field_simps)
  show ?thesis
    unfolding v using pi4_bounds by linarith
qed

lemma valof_pi2: "\<bar>valof 0x3FF921FB54442D18 - pi / 2\<bar> \<le> 1 / 2 ^ 53"
proof -
  have f: "expo 0x3FF921FB54442D18 = 1023" "fract 0x3FF921FB54442D18 = 2570638124657944"
    "\<not> sign_of 0x3FF921FB54442D18"
    by (simp_all add: expo_def fract_def sign_of_def)
  have v: "valof 0x3FF921FB54442D18 = 7074237752028440 / 2 ^ 52"
    by (simp add: valof_def mant_def exp2_def f power_int_minus field_simps)
  show ?thesis
    unfolding v using pi4_bounds by (simp add: field_simps)
qed

text \<open>
  The angles of the docstring, and three more: \<^verbatim>\<open>Vector2d(0, 0).angle()\<close> and
  \<^verbatim>\<open>Vector2d(1, 0).angle()\<close> are \<^verbatim>\<open>0.0\<close>, the angles of \<^verbatim>\<open>Vector2d(0, 1)\<close> and
  \<^verbatim>\<open>Vector2d(1, 1)\<close> are \<open>pi / 2\<close> and \<open>pi / 4\<close> to the last place, that of
  \<^verbatim>\<open>Vector2d(-1, 0)\<close> is the double \<^verbatim>\<open>math.pi\<close>, that of \<^verbatim>\<open>Vector2d(-1, -1)\<close> is
  \<^verbatim>\<open>-0.75 * math.pi\<close> and that of \<^verbatim>\<open>Vector2d(3, 4)\<close> is \<^verbatim>\<open>0.9272952180016122\<close>.
\<close>

lemma doctest_angle:
  "angle \<lparr>private_x = \<lparr>ident = i, bits = 0\<rparr>, private_y = \<lparr>ident = j, bits = 0\<rparr>\<rparr> = 0"
  "angle \<lparr>private_x = \<lparr>ident = i, bits = 0x3FF0000000000000\<rparr>,
          private_y = \<lparr>ident = j, bits = 0\<rparr>\<rparr> = 0"
  "\<bar>valof (angle \<lparr>private_x = \<lparr>ident = i, bits = 0\<rparr>,
                   private_y = \<lparr>ident = j, bits = 0x3FF0000000000000\<rparr>\<rparr>) - pi / 2\<bar> \<le> 1 / 2 ^ 53"
  "\<bar>valof (angle \<lparr>private_x = \<lparr>ident = i, bits = 0x3FF0000000000000\<rparr>,
                   private_y = \<lparr>ident = j, bits = 0x3FF0000000000000\<rparr>\<rparr>) - pi / 4\<bar> \<le> 1 / 2 ^ 54"
  "angle \<lparr>private_x = \<lparr>ident = i, bits = 0xBFF0000000000000\<rparr>,
          private_y = \<lparr>ident = j, bits = 0\<rparr>\<rparr> = 0x400921FB54442D18"
  "angle \<lparr>private_x = \<lparr>ident = i, bits = 0xBFF0000000000000\<rparr>,
          private_y = \<lparr>ident = j, bits = 0xBFF0000000000000\<rparr>\<rparr> = 0xC002D97C7F3321D2"
  "angle \<lparr>private_x = \<lparr>ident = i, bits = 0x4008000000000000\<rparr>,
          private_y = \<lparr>ident = j, bits = 0x4010000000000000\<rparr>\<rparr> = 0x3FEDAC670561BB4F"
  using valof_pi2 valof_pi4
  by (simp_all add: angle_def x_prop_def y_prop_def atan2_0_0 atan2_0_1 atan2_1_0 atan2_1_1
      atan2_0_neg1 atan2_neg1_neg1 atan2_4_3)

subsection \<open>The built-in \<^verbatim>\<open>format\<close>\<close>

lemma format_plain:
  assumes "parse_format_spec s = Some (Inr spec)" and "s \<noteq> []"
    and "width spec = 0" and "\<not> upper spec" and "sign spec = CHR ''-''"
    and "is_finite w" and "\<not> sign_of w"
  shows "format_float w s =
    Some (Inr (case kind spec of
                 Repr \<Rightarrow> float_repr w
               | Fixed \<Rightarrow> fixed_digits w (precision spec)
               | Exponent \<Rightarrow> exp_digits w (precision spec)))"
proof -
  from assms(6) have "\<not> is_nan w" "\<not> is_inf w"
    by (simp_all add: is_finite_def is_nan_def is_inf_def)
  with assms show ?thesis
    by (simp add: format_float_def pad_def sign_text_def number_text_def float_abs_pos Let_def)
qed

lemma parse_3e:
  "parse_format_spec ''.3e'' =
     Some (Inr \<lparr>fill_char = CHR '' '', align = CHR ''>'', sign = CHR ''-'', width = 0,
                precision = 3, kind = Exponent, upper = False\<rparr>)"
  by (simp add: parse_format_spec_def Let_def is_align_def is_digit_def nat_of_digits_def)

lemma parse_2f:
  "parse_format_spec ''.2f'' =
     Some (Inr \<lparr>fill_char = CHR '' '', align = CHR ''>'', sign = CHR ''-'', width = 0,
                precision = 2, kind = Fixed, upper = False\<rparr>)"
  by (simp add: parse_format_spec_def Let_def is_align_def is_digit_def nat_of_digits_def)

lemma parse_05f:
  "parse_format_spec ''0.5f'' =
     Some (Inr \<lparr>fill_char = CHR ''0'', align = CHR ''='', sign = CHR ''-'', width = 0,
                precision = 5, kind = Fixed, upper = False\<rparr>)"
  by (simp add: parse_format_spec_def Let_def is_align_def is_digit_def nat_of_digits_def)

lemma exp_digits_sqrt2: "exp_digits 0x3FF6A09E667F3BCD 3 = ''1.414e+00''"
proof -
  have de: "dec_exact (mant 0x3FF6A09E667F3BCD) (exp2 0x3FF6A09E667F3BCD) =
      (6369051672525773 * 5 ^ 52, - 52)"
    by (simp add: dec_exact_def mant_def exp2_def fields_sqrt2)
  have len: "length (digits (6369051672525773 * 5 ^ 52)) = Suc 52"
    by (rule length_digits) simp_all
  have n0: "round_digits (6369051672525773 * 5 ^ 52) 49 = 1414"
    by (simp add: round_digits_def Let_def)
  have d: "digits 1414 = ''1414''" "digits 0 = ''0''"
    by code_simp+
  show ?thesis
    using len n0 d by (simp add: exp_digits_def de to_scale_def pad2_def Let_def)
qed


lemma fixed_digits_sqrt2: "fixed_digits 0x3FF6A09E667F3BCD 5 = ''1.41421''"
proof -
  have de: "dec_exact (mant 0x3FF6A09E667F3BCD) (exp2 0x3FF6A09E667F3BCD) =
      (6369051672525773 * 5 ^ 52, - 52)"
    by (simp add: dec_exact_def mant_def exp2_def fields_sqrt2)
  have n0: "round_digits (6369051672525773 * 5 ^ 52) 47 = 141421"
    by (simp add: round_digits_def Let_def)
  have d: "digits 141421 = ''141421''"
    by code_simp
  show ?thesis
    using n0 d by (simp add: fixed_digits_def de to_scale_def Let_def)
qed

lemma exp_digits_pi4: "exp_digits 0x3FE921FB54442D18 3 = ''7.854e-01''"
proof -
  have de: "dec_exact (mant 0x3FE921FB54442D18) (exp2 0x3FE921FB54442D18) =
      (7074237752028440 * 5 ^ 53, - 53)"
    by (simp add: dec_exact_def mant_def exp2_def fields_pi4)
  have len: "length (digits (7074237752028440 * 5 ^ 53)) = Suc 52"
    by (rule length_digits) simp_all
  have n0: "round_digits (7074237752028440 * 5 ^ 53) 49 = 7854"
    by (simp add: round_digits_def Let_def)
  have d: "digits 7854 = ''7854''" "digits 1 = ''1''"
    by code_simp+
  show ?thesis
    using len n0 d by (simp add: exp_digits_def de to_scale_def pad2_def Let_def)
qed

lemma fixed_digits_pi4: "fixed_digits 0x3FE921FB54442D18 5 = ''0.78540''"
proof -
  have de: "dec_exact (mant 0x3FE921FB54442D18) (exp2 0x3FE921FB54442D18) =
      (7074237752028440 * 5 ^ 53, - 53)"
    by (simp add: dec_exact_def mant_def exp2_def fields_pi4)
  have n0: "round_digits (7074237752028440 * 5 ^ 53) 48 = 78540"
    by (simp add: round_digits_def Let_def)
  have d: "digits 78540 = ''78540''"
    by code_simp
  show ?thesis
    using n0 d by (simp add: fixed_digits_def de to_scale_def Let_def)
qed

lemma dec_exact_3:
  "dec_exact (mant 0x4008000000000000) (exp2 0x4008000000000000) = (3 * 10 ^ 51, - 51)"
  by (simp add: dec_exact_def mant_def exp2_def fields_3)

lemma dec_exact_4:
  "dec_exact (mant 0x4010000000000000) (exp2 0x4010000000000000) = (4 * 10 ^ 50, - 50)"
  by (simp add: dec_exact_def mant_def exp2_def fields_4)

lemma fixed_digits_3: "fixed_digits 0x4008000000000000 2 = ''3.00''"
proof -
  have n0: "round_digits (3 * 10 ^ 51) 49 = 300"
    by (simp add: round_digits_def Let_def)
  have d: "digits 300 = ''300''"
    by code_simp
  show ?thesis
    using n0 d by (simp add: fixed_digits_def dec_exact_3 to_scale_def Let_def)
qed

lemma fixed_digits_4: "fixed_digits 0x4010000000000000 2 = ''4.00''"
proof -
  have n0: "round_digits (4 * 10 ^ 50) 48 = 400"
    by (simp add: round_digits_def Let_def)
  have d: "digits 400 = ''400''"
    by code_simp
  show ?thesis
    using n0 d by (simp add: fixed_digits_def dec_exact_4 to_scale_def Let_def)
qed

lemma exp_digits_3: "exp_digits 0x4008000000000000 3 = ''3.000e+00''"
proof -
  have len: "length (digits (3 * 10 ^ 51)) = Suc 51"
    by (rule length_digits) simp_all
  have n0: "round_digits (3 * 10 ^ 51) 48 = 3000"
    by (simp add: round_digits_def Let_def)
  have d: "digits 3000 = ''3000''" "digits 0 = ''0''"
    by code_simp+
  show ?thesis
    using len n0 d by (simp add: exp_digits_def dec_exact_3 to_scale_def pad2_def Let_def)
qed

lemma exp_digits_4: "exp_digits 0x4010000000000000 3 = ''4.000e+00''"
proof -
  have len: "length (digits (4 * 10 ^ 50)) = Suc 50"
    by (rule length_digits) simp_all
  have n0: "round_digits (4 * 10 ^ 50) 47 = 4000"
    by (simp add: round_digits_def Let_def)
  have d: "digits 4000 = ''4000''" "digits 0 = ''0''"
    by code_simp+
  show ?thesis
    using len n0 d by (simp add: exp_digits_def dec_exact_4 to_scale_def pad2_def Let_def)
qed

lemma finite_values:
  "is_finite 0x3FF6A09E667F3BCD" "is_finite 0x3FE921FB54442D18"
  "is_finite 0x4008000000000000" "is_finite 0x4010000000000000"
  by (simp_all add: is_finite_def fields_sqrt2 fields_pi4 fields_3 fields_4)

text \<open>The components of the docstring's formats.\<close>

lemma format_float_3e:
  "format_float 0x3FF6A09E667F3BCD ''.3e'' = Some (Inr ''1.414e+00'')"
  "format_float 0x3FE921FB54442D18 ''.3e'' = Some (Inr ''7.854e-01'')"
  "format_float 0x4008000000000000 ''.3e'' = Some (Inr ''3.000e+00'')"
  "format_float 0x4010000000000000 ''.3e'' = Some (Inr ''4.000e+00'')"
  by (simp_all add: format_plain [OF parse_3e] finite_values fields_sqrt2 fields_pi4 fields_3
      fields_4 exp_digits_sqrt2 exp_digits_pi4 exp_digits_3 exp_digits_4)

lemma format_float_5f:
  "format_float 0x3FF6A09E667F3BCD ''0.5f'' = Some (Inr ''1.41421'')"
  "format_float 0x3FE921FB54442D18 ''0.5f'' = Some (Inr ''0.78540'')"
  by (simp_all add: format_plain [OF parse_05f] finite_values fields_sqrt2 fields_pi4
      fixed_digits_sqrt2 fixed_digits_pi4)

lemma format_float_2f:
  "format_float 0x4008000000000000 ''.2f'' = Some (Inr ''3.00'')"
  "format_float 0x4010000000000000 ''.2f'' = Some (Inr ''4.00'')"
  by (simp_all add: format_plain [OF parse_2f] finite_values fields_3 fields_4
      fixed_digits_3 fixed_digits_4)

text \<open>
  A specifier with an unknown type is rejected, and four specifiers with a width: the
  results are those of Python.
\<close>

lemma replicate_2: "replicate 2 c = [c, c]"
  by (simp add: numeral_2_eq_2)

lemma to_upper_inf: "map to_upper ''inf'' = ''INF''"
  by code_simp

lemma format_unknown_type: "format_float w ''p'' = Some (Inl ValueError)"
  by (simp add: format_float_def parse_format_spec_def Let_def is_align_def is_digit_def)

lemma format_width: "format_float 0x3FF0000000000000 ''5'' = Some (Inr ''  1.0'')"
  by (simp add: format_float_def parse_format_spec_def Let_def is_align_def is_digit_def
      nat_of_digits_def pad_def sign_text_def number_text_def float_abs_pos fields_1 is_nan_def
      is_inf_def float_repr_1 replicate_2)

lemma format_fill_sign: "format_float 0x4008000000000000 ''*^+9.2f'' = Some (Inr ''**+3.00**'')"
  by (simp add: format_float_def parse_format_spec_def Let_def is_align_def is_digit_def
      nat_of_digits_def pad_def sign_text_def number_text_def float_abs_pos fields_3 is_nan_def
      is_inf_def fixed_digits_3 replicate_2)

lemma format_zero_negative: "format_float 0xC008000000000000 ''07.2f'' = Some (Inr ''-003.00'')"
proof -
  have f: "expo 0xC008000000000000 = 1024" "fract 0xC008000000000000 = 2 ^ 51"
    "sign_of 0xC008000000000000"
    by (simp_all add: expo_def fract_def sign_of_def)
  have a: "float_abs 0xC008000000000000 = 0x4008000000000000"
    by (simp add: float_abs_def)
  show ?thesis
    by (simp add: format_float_def parse_format_spec_def Let_def is_align_def is_digit_def
        nat_of_digits_def pad_def sign_text_def number_text_def a f is_nan_def is_inf_def
        fixed_digits_3 replicate_2)
qed

lemma format_inf_upper: "format_float 0xFFF0000000000000 ''>6E'' = Some (Inr ''  -INF'')"
proof -
  have f: "expo 0xFFF0000000000000 = 2047" "fract 0xFFF0000000000000 = 0"
    "sign_of 0xFFF0000000000000"
    by (simp_all add: expo_def fract_def sign_of_def)
  show ?thesis
    using to_upper_inf
    by (simp add: format_float_def parse_format_spec_def Let_def is_align_def is_digit_def
        nat_of_digits_def pad_def sign_text_def number_text_def f is_nan_def is_inf_def
        replicate_2)
qed

subsection \<open>Formatting\<close>

lemma unpack_two:
  "unpack [a, b] =
     (case a of
        None \<Rightarrow> None
      | Some (Inl e) \<Rightarrow> Some (Inl e)
      | Some (Inr sa) \<Rightarrow>
          (case b of
             None \<Rightarrow> None
           | Some (Inl e) \<Rightarrow> Some (Inl e)
           | Some (Inr sb) \<Rightarrow> Some (Inr [sa, sb])))"
  by (simp split: option.splits sum.splits)

lemma hypot_1_1: "hypot 0x3FF0000000000000 0x3FF0000000000000 = 0x3FF6A09E667F3BCD"
proof -
  have x: "expo 0x3FF0000000000000 = 1023" "fract 0x3FF0000000000000 = 0"
    by (simp_all add: expo_def fract_def)
  have r: "isqrt (2 * 2 ^ 104 * 2 ^ 128) = 117488266195314702902848521717590359"
    by (rule isqrt_unique) simp_all
  have l: "bit_length 117488266195314702902848521717590359 = Suc 116"
    by (rule bit_length_eq) simp_all
  show ?thesis
    using r l
    by (simp add: hypot_def is_inf_def is_nan_def mant_def exp2_def x Let_def round_pos_def)
qed

lemma valof_sqrt2: "\<bar>valof 0x3FF6A09E667F3BCD - sqrt 2\<bar> \<le> 1 / 2 ^ 53"
proof -
  have e: "expo 0x3FF6A09E667F3BCD = 1023" "fract 0x3FF6A09E667F3BCD = 1865452045155277"
    by (simp_all add: expo_def fract_def)
  have s: "\<not> sign_of 0x3FF6A09E667F3BCD"
    by (simp add: sign_of_def)
  have v: "valof 0x3FF6A09E667F3BCD = 6369051672525773 / 2 ^ 52"
    using e s by (simp add: valof_def mant_def exp2_def power_int_minus field_simps)
  have lo: "6369051672525773 / 2 ^ 52 - 1 / 2 ^ 53 \<le> sqrt 2"
    by (rule real_le_rsqrt) (simp add: power2_eq_square field_simps)
  have hi: "sqrt 2 \<le> 6369051672525773 / 2 ^ 52 + 1 / 2 ^ 53"
    by (rule real_le_lsqrt) (simp_all add: power2_eq_square field_simps)
  from lo hi show ?thesis
    unfolding v by linarith
qed

lemma format_polar:
  "endswith_p fmt_spec \<Longrightarrow>
   Vector2d_format v fmt_spec =
     (case format_float (hypot (bits (private_x v)) (bits (private_y v))) (butlast fmt_spec) of
        None \<Rightarrow> None
      | Some (Inl e) \<Rightarrow> Some (Inl e)
      | Some (Inr m) \<Rightarrow>
          (case format_float (atan2 (bits (private_y v)) (bits (private_x v))) (butlast fmt_spec) of
             None \<Rightarrow> None
           | Some (Inl e) \<Rightarrow> Some (Inl e)
           | Some (Inr a) \<Rightarrow> Some (Inr (''<'' @ m @ '', '' @ a @ ''>''))))"
  by (simp add: Vector2d_format_def Let_def unpack_two outer_format_def Vector2d_abs_def angle_def
      x_prop_def y_prop_def split: option.splits sum.splits)

lemma format_cartesian:
  "\<not> endswith_p fmt_spec \<Longrightarrow>
   Vector2d_format v fmt_spec =
     (case format_float (bits (private_x v)) fmt_spec of
        None \<Rightarrow> None
      | Some (Inl e) \<Rightarrow> Some (Inl e)
      | Some (Inr a) \<Rightarrow>
          (case format_float (bits (private_y v)) fmt_spec of
             None \<Rightarrow> None
           | Some (Inl e) \<Rightarrow> Some (Inl e)
           | Some (Inr b) \<Rightarrow> Some (Inr (''('' @ a @ '', '' @ b @ '')''))))"
  by (simp add: Vector2d_format_def Let_def unpack_two outer_format_def x_prop_def y_prop_def
      split: option.splits sum.splits)

text \<open>\<^verbatim>\<open>format(v, 'pp')\<close> raises: the components are formatted with \<^verbatim>\<open>'p'\<close>.\<close>

lemma format_pp: "Vector2d_format v ''pp'' = Some (Inl ValueError)"
  by (simp add: format_polar endswith_p_def format_unknown_type)

lemma suffix_p:
  "endswith_p ''p''" "endswith_p ''.3ep''" "endswith_p ''0.5fp''"
  "\<not> endswith_p []" "\<not> endswith_p ''.2f''" "\<not> endswith_p ''.3e''"
  by (simp_all add: endswith_p_def)

text \<open>
  Claim C6.  With a format specifier that ends in \<^verbatim>\<open>p\<close> the result is \<^verbatim>\<open><m, a>\<close>,
  where \<open>m\<close> is the magnitude \<^verbatim>\<open>math.hypot(x, y)\<close> and \<open>a\<close> the angle
  \<^verbatim>\<open>math.atan2(y, x)\<close>, each formatted with the rest of the specifier; without the suffix
  it is \<^verbatim>\<open>(x, y)\<close>, the two components formatted with the specifier.  An error of the
  component formatter is the result.  For \<^verbatim>\<open>Vector2d(1, 1)\<close> the magnitude is within
  \<open>2\<^sup>-\<^sup>5\<^sup>3\<close> of \<open>sqrt 2\<close> and the angle within \<open>2\<^sup>-\<^sup>5\<^sup>4\<close> of \<open>pi / 4\<close>; its polar formats
  are those of the docstring, \<^verbatim>\<open><1.414e+00, 7.854e-01>\<close> with \<^verbatim>\<open>'.3ep'\<close> and
  \<^verbatim>\<open><1.41421, 0.78540>\<close> with \<^verbatim>\<open>'0.5fp'\<close>, and with \<^verbatim>\<open>'p'\<close> the \<^verbatim>\<open>repr\<close> of the two
  numbers.  The Cartesian formats of \<^verbatim>\<open>Vector2d(3, 4)\<close> are those of the docstring as well.
\<close>

theorem format_polar_or_cartesian:
  "(endswith_p fmt_spec \<longrightarrow>
      Vector2d_format v fmt_spec =
        (case format_float (hypot (bits (private_x v)) (bits (private_y v))) (butlast fmt_spec) of
           None \<Rightarrow> None
         | Some (Inl e) \<Rightarrow> Some (Inl e)
         | Some (Inr m) \<Rightarrow>
             (case format_float (atan2 (bits (private_y v)) (bits (private_x v)))
                     (butlast fmt_spec) of
                None \<Rightarrow> None
              | Some (Inl e) \<Rightarrow> Some (Inl e)
              | Some (Inr a) \<Rightarrow> Some (Inr (''<'' @ m @ '', '' @ a @ ''>''))))) \<and>
   (\<not> endswith_p fmt_spec \<longrightarrow>
      Vector2d_format v fmt_spec =
        (case format_float (bits (private_x v)) fmt_spec of
           None \<Rightarrow> None
         | Some (Inl e) \<Rightarrow> Some (Inl e)
         | Some (Inr a) \<Rightarrow>
             (case format_float (bits (private_y v)) fmt_spec of
                None \<Rightarrow> None
              | Some (Inl e) \<Rightarrow> Some (Inl e)
              | Some (Inr b) \<Rightarrow> Some (Inr (''('' @ a @ '', '' @ b @ '')''))))) \<and>
   (\<exists>v11. fst (Vector2d_init (PyInt 1) (PyInt 1) n) = Inr v11 \<and>
      \<bar>valof (Vector2d_abs v11) - sqrt 2\<bar> \<le> 1 / 2 ^ 53 \<and>
      \<bar>valof (angle v11) - pi / 4\<bar> \<le> 1 / 2 ^ 54 \<and>
      Vector2d_format v11 ''p'' =
        Some (Inr (''<'' @ float_repr (Vector2d_abs v11) @ '', '' @ float_repr (angle v11) @ ''>'')) \<and>
      Vector2d_format v11 ''.3ep'' = Some (Inr ''<1.414e+00, 7.854e-01>'') \<and>
      Vector2d_format v11 ''0.5fp'' = Some (Inr ''<1.41421, 0.78540>'')) \<and>
   (\<exists>v34. fst (Vector2d_init (PyInt 3) (PyInt 4) n) = Inr v34 \<and>
      Vector2d_format v34 [] = Some (Inr ''(3.0, 4.0)'') \<and>
      Vector2d_format v34 ''.2f'' = Some (Inr ''(3.00, 4.00)'') \<and>
      Vector2d_format v34 ''.3e'' = Some (Inr ''(3.000e+00, 4.000e+00)''))"
proof -
  let ?v11 = "\<lparr>private_x = \<lparr>ident = n, bits = 0x3FF0000000000000\<rparr>,
               private_y = \<lparr>ident = Suc n, bits = 0x3FF0000000000000\<rparr>\<rparr>"
  let ?v34 = "\<lparr>private_x = \<lparr>ident = n, bits = 0x4008000000000000\<rparr>,
               private_y = \<lparr>ident = Suc n, bits = 0x4010000000000000\<rparr>\<rparr>"
  have i11: "fst (Vector2d_init (PyInt 1) (PyInt 1) n) = Inr ?v11"
    by (simp add: Vector2d_init_def float_of_int_1)
  have i34: "fst (Vector2d_init (PyInt 3) (PyInt 4) n) = Inr ?v34"
    by (simp add: Vector2d_init_def float_of_int_3 float_of_int_4)
  have m: "Vector2d_abs ?v11 = 0x3FF6A09E667F3BCD"
    by (simp add: Vector2d_abs_def x_prop_def y_prop_def hypot_1_1)
  have a: "angle ?v11 = 0x3FE921FB54442D18"
    by (simp add: angle_def x_prop_def y_prop_def atan2_1_1)
  have ms: "\<bar>valof (Vector2d_abs ?v11) - sqrt 2\<bar> \<le> 1 / 2 ^ 53"
    using valof_sqrt2 by (simp add: m)
  have as: "\<bar>valof (angle ?v11) - pi / 4\<bar> \<le> 1 / 2 ^ 54"
    using valof_pi4 by (simp add: a)
  have p0: "Vector2d_format ?v11 ''p'' =
      Some (Inr (''<'' @ float_repr (Vector2d_abs ?v11) @ '', '' @ float_repr (angle ?v11) @ ''>''))"
    by (simp add: format_polar suffix_p Vector2d_abs_def angle_def x_prop_def y_prop_def
        format_float_def)
  have p1: "Vector2d_format ?v11 ''.3ep'' = Some (Inr ''<1.414e+00, 7.854e-01>'')"
    by (simp add: format_polar suffix_p hypot_1_1 atan2_1_1 format_float_3e)
  have p2: "Vector2d_format ?v11 ''0.5fp'' = Some (Inr ''<1.41421, 0.78540>'')"
    by (simp add: format_polar suffix_p hypot_1_1 atan2_1_1 format_float_5f)
  have c0: "Vector2d_format ?v34 [] = Some (Inr ''(3.0, 4.0)'')"
    by (simp add: format_cartesian suffix_p format_float_def float_repr_3 float_repr_4)
  have c1: "Vector2d_format ?v34 ''.2f'' = Some (Inr ''(3.00, 4.00)'')"
    by (simp add: format_cartesian suffix_p format_float_2f)
  have c2: "Vector2d_format ?v34 ''.3e'' = Some (Inr ''(3.000e+00, 4.000e+00)'')"
    by (simp add: format_cartesian suffix_p format_float_3e)
  have o: "\<exists>v11. fst (Vector2d_init (PyInt 1) (PyInt 1) n) = Inr v11 \<and>
      \<bar>valof (Vector2d_abs v11) - sqrt 2\<bar> \<le> 1 / 2 ^ 53 \<and>
      \<bar>valof (angle v11) - pi / 4\<bar> \<le> 1 / 2 ^ 54 \<and>
      Vector2d_format v11 ''p'' =
        Some (Inr (''<'' @ float_repr (Vector2d_abs v11) @ '', '' @ float_repr (angle v11) @ ''>'')) \<and>
      Vector2d_format v11 ''.3ep'' = Some (Inr ''<1.414e+00, 7.854e-01>'') \<and>
      Vector2d_format v11 ''0.5fp'' = Some (Inr ''<1.41421, 0.78540>'')"
    using i11 ms as p0 p1 p2 by blast
  have t: "\<exists>v34. fst (Vector2d_init (PyInt 3) (PyInt 4) n) = Inr v34 \<and>
      Vector2d_format v34 [] = Some (Inr ''(3.0, 4.0)'') \<and>
      Vector2d_format v34 ''.2f'' = Some (Inr ''(3.00, 4.00)'') \<and>
      Vector2d_format v34 ''.3e'' = Some (Inr ''(3.000e+00, 4.000e+00)'')"
    using i34 c0 c1 c2 by blast
  from format_polar [of fmt_spec v] format_cartesian [of fmt_spec v] o t show ?thesis
    by blast
qed

text \<open>
  The witness formats \<^verbatim>\<open>Vector2d(1, 1)\<close> with \<^verbatim>\<open>'.3ep'\<close>, where the components are
  formatted with \<^verbatim>\<open>'.3e'\<close>, and \<^verbatim>\<open>Vector2d(3, 4)\<close> with \<^verbatim>\<open>'.2f'\<close>.
\<close>

theorem format_polar_or_cartesian_witness:
  "endswith_p ''.3ep'' \<and>
   Vector2d_format
       \<lparr>private_x = \<lparr>ident = 0, bits = 0x3FF0000000000000\<rparr>,
         private_y = \<lparr>ident = 1, bits = 0x3FF0000000000000\<rparr>\<rparr> ''.3ep''
     = Some (Inr ''<1.414e+00, 7.854e-01>'') \<and>
   \<not> endswith_p ''.2f'' \<and>
   Vector2d_format
       \<lparr>private_x = \<lparr>ident = 0, bits = 0x4008000000000000\<rparr>,
         private_y = \<lparr>ident = 1, bits = 0x4010000000000000\<rparr>\<rparr> ''.2f''
     = Some (Inr ''(3.00, 4.00)'')"
proof -
  let ?v11 = "\<lparr>private_x = \<lparr>ident = 0, bits = 0x3FF0000000000000\<rparr>,
               private_y = \<lparr>ident = 1, bits = 0x3FF0000000000000\<rparr>\<rparr>"
  let ?v34 = "\<lparr>private_x = \<lparr>ident = 0, bits = 0x4008000000000000\<rparr>,
               private_y = \<lparr>ident = 1, bits = 0x4010000000000000\<rparr>\<rparr>"
  have b: "butlast ''.3ep'' = ''.3e''"
    by simp
  show ?thesis
    using format_polar_or_cartesian [of "''.3ep''" ?v11 0]
      format_polar_or_cartesian [of "''.2f''" ?v34 0] suffix_p
    by (simp add: b hypot_1_1 atan2_1_1 format_float_3e format_float_2f)
qed

end
